theory Spec2Isabelle
  imports Main
begin

section \<open>Exscript.protocols.Transport: the session layer\<close>

text \<open>
  The class \<open>Transport\<close> of \<open>src/Exscript/protocols/Transport.py\<close> is embedded as
  functions on a record of its attributes. A method that mutates the object takes
  the state and returns the new one; a method that may raise returns
  \<open>(exn + 'a) \<times> state\<close>: the state is returned in both cases, because the
  attributes written before a \<open>raise\<close> keep their values in Python.
  A method name with a leading underscore (\<open>_waitfor\<close>) is written with the
  prefix \<open>u_\<close> (\<open>u_waitfor\<close>).
\<close>

subsection \<open>Values\<close>

datatype exn =
    TransportException string
  | InvalidCommandException string
  | LoginFailure string
  | TimeoutException string
  | DriverReplacedException
  | ExpectCancelledException
  | EOFError
  | TypeError string
  | AttributeError
  | IndexError
  | ValueError
  | UnboundLocalError
  | AssertionError

text \<open>What a method hands back: Python's \<open>None\<close> or a string.\<close>

datatype pyval = PyNone | PyStr string

text \<open>
  A match object of module \<open>re\<close>: where the match starts and ends in the searched
  string, and the text of the groups 1, 2, ...
\<close>

record mtch =
  m_start :: nat
  m_end :: nat
  m_groups :: "string list"

text \<open>
  A compiled regular expression is an object with the attribute \<open>pattern\<close> and the
  methods \<open>search\<close> (a match anywhere in the string) and \<open>match\<close> (a match at the
  start of the string). Every theorem below holds for all such objects.
\<close>

record regex =
  re_pattern :: string
  re_search :: "string \<Rightarrow> mtch option"
  re_match :: "string \<Rightarrow> mtch option"

text \<open>\<open>match.group(n)\<close> for \<open>n \<ge> 1\<close>; a group that does not exist raises IndexError.\<close>

definition group :: "mtch \<Rightarrow> nat \<Rightarrow> exn + string" where
  "group m n =
     (if 1 \<le> n \<and> n \<le> length (m_groups m) then Inr (m_groups m ! (n - 1))
      else Inl IndexError)"

text \<open>A driver of \<open>Exscript.protocols.drivers\<close>: its name and its five pattern lists.\<close>

record driver =
  name :: string
  user_re :: "regex list"
  password_re :: "regex list"
  prompt_re :: "regex list"
  error_re :: "regex list"
  login_error_re :: "regex list"

text \<open>An \<open>Account\<close>: \<open>get_name\<close>, \<open>get_password\<close>, \<open>get_authorization_password\<close>, \<open>get_key\<close>.\<close>

record account =
  get_name :: string
  get_password :: string
  get_authorization_password :: "string option"
  get_key :: "string option"

text \<open>What the \<open>OsGuesser\<close> has been told so far.\<close>

datatype guess_ev = DataReceived string | ResponseReceived

text \<open>What the connected host does next: it sends a chunk of data, or closes the stream.\<close>

datatype rx = Chunk string | Eof

subsection \<open>The attributes of a Transport\<close>

text \<open>
  The attributes set by \<open>__init__\<close>, in its order. An \<open>Event\<close> is the list of its
  subscribers; a subscriber is a callback, which by the docstring of
  \<open>cancel_expect\<close> may call \<open>cancel_expect\<close>: it is modelled by the predicate that
  says for which arguments it does so.

  The last four fields belong to the protocol adapter that subclasses Transport
  (Telnet, SSH, Dummy; none is under src/): the receive buffer, what the host
  will send, the cancellation flag, and what was sent to the host.
\<close>

record state =
  data_received_event :: "(string \<Rightarrow> bool) list"
  otp_requested_event :: "(int \<times> string \<Rightarrow> bool) list"
  os_guesser :: "guess_ev list"
  auto_driver :: driver
  authenticated :: bool
  app_authenticated :: bool
  app_authorized :: bool
  manual_user_re :: "regex list option"
  manual_password_re :: "regex list option"
  manual_prompt_re :: "regex list option"
  manual_error_re :: "regex list option"
  manual_login_error_re :: "regex list option"
  driver_replaced :: bool
  manual_driver :: "driver option"
  last_account :: "account option"
  stdout :: "string list"
  stderr :: "string list"
  debug :: int
  log :: "string list option"
  response :: "string option"
  buffer :: string
  incoming :: "rx list"
  cancel_requested :: bool
  sent :: "string list"

subsection \<open>Drivers and prompts\<close>

text \<open>
  \<open>if self.manual_driver: return self.manual_driver\<close>: a driver object is true,
  \<open>None\<close> is false.
\<close>

definition get_driver :: "state \<Rightarrow> driver" where
  "get_driver s = (case manual_driver s of Some d \<Rightarrow> d | None \<Rightarrow> auto_driver s)"

text \<open>
  The setters store \<open>None\<close> as it is and any other argument as the list of regular
  expressions \<open>to_regexs\<close> casts it to (\<open>Exscript.util.cast\<close> is not under src/;
  the argument is taken in its cast form, a list of regex objects).
\<close>

definition set_username_prompt :: "regex list option \<Rightarrow> state \<Rightarrow> state" where
  "set_username_prompt regex s = s\<lparr>manual_user_re := regex\<rparr>"

definition set_password_prompt :: "regex list option \<Rightarrow> state \<Rightarrow> state" where
  "set_password_prompt regex s = s\<lparr>manual_password_re := regex\<rparr>"

definition set_prompt :: "regex list option \<Rightarrow> state \<Rightarrow> state" where
  "set_prompt prompt s = s\<lparr>manual_prompt_re := prompt\<rparr>"

definition set_error_prompt :: "regex list option \<Rightarrow> state \<Rightarrow> state" where
  "set_error_prompt error s = s\<lparr>manual_error_re := error\<rparr>"

definition set_login_error_prompt :: "regex list option \<Rightarrow> state \<Rightarrow> state" where
  "set_login_error_prompt error s = s\<lparr>manual_login_error_re := error\<rparr>"

text \<open>
  The getters test the attribute for truth, \<open>if self.manual_user_re:\<close>, and
  Python holds \<open>None\<close> and the empty list both for false.
\<close>

definition truthy :: "'a list option \<Rightarrow> bool" where
  "truthy v = (case v of None \<Rightarrow> False | Some xs \<Rightarrow> xs \<noteq> [])"

definition get_username_prompt :: "state \<Rightarrow> regex list" where
  "get_username_prompt s =
     (if truthy (manual_user_re s) then the (manual_user_re s)
      else user_re (get_driver s))"

definition get_password_prompt :: "state \<Rightarrow> regex list" where
  "get_password_prompt s =
     (if truthy (manual_password_re s) then the (manual_password_re s)
      else password_re (get_driver s))"

definition get_prompt :: "state \<Rightarrow> regex list" where
  "get_prompt s =
     (if truthy (manual_prompt_re s) then the (manual_prompt_re s)
      else prompt_re (get_driver s))"

definition get_error_prompt :: "state \<Rightarrow> regex list" where
  "get_error_prompt s =
     (if truthy (manual_error_re s) then the (manual_error_re s)
      else error_re (get_driver s))"

definition get_login_error_prompt :: "state \<Rightarrow> regex list" where
  "get_login_error_prompt s =
     (if truthy (manual_login_error_re s) then the (manual_login_error_re s)
      else login_error_re (get_driver s))"

subsection \<open>Python's builtins\<close>

text \<open>\<open>repr\<close> of a byte string, as Python 2 prints it.\<close>

definition hex_digit :: "nat \<Rightarrow> char" where
  "hex_digit n = ''0123456789abcdef'' ! (n mod 16)"

definition repr_char :: "char \<Rightarrow> char \<Rightarrow> string" where
  "repr_char quote c =
     (if c = quote \<or> c = CHR 0x5C then [CHR 0x5C, c]
      else if c = CHR 0x09 then [CHR 0x5C, CHR ''t'']
      else if c = CHR 0x0A then [CHR 0x5C, CHR ''n'']
      else if c = CHR 0x0D then [CHR 0x5C, CHR ''r'']
      else if (of_char c :: nat) < 32 \<or> 127 \<le> (of_char c :: nat)
        then [CHR 0x5C, CHR ''x'', hex_digit (of_char c div 16), hex_digit (of_char c mod 16)]
      else [c])"

definition repr :: "string \<Rightarrow> string" where
  "repr s =
     (let quote = (if CHR 0x27 \<in> set s \<and> CHR 0x22 \<notin> set s then CHR 0x22 else CHR 0x27)
      in [quote] @ concat (map (repr_char quote) s) @ [quote])"

text \<open>\<open>repr(self.response)\<close>, where the attribute may be \<open>None\<close>.\<close>

definition repr_opt :: "string option \<Rightarrow> string" where
  "repr_opt v = (case v of None \<Rightarrow> ''None'' | Some s \<Rightarrow> repr s)"

text \<open>\<open>'%s' % n\<close> for an integer.\<close>

definition digit_char :: "nat \<Rightarrow> char" where
  "digit_char n = ''0123456789'' ! (n mod 10)"

fun str_nat :: "nat \<Rightarrow> string" where
  "str_nat n = (if n < 10 then [digit_char n] else str_nat (n div 10) @ [digit_char n])"

definition str_int :: "int \<Rightarrow> string" where
  "str_int i = (if i < 0 then CHR ''-'' # str_nat (nat (- i)) else str_nat (nat i))"

text \<open>
  \<open>int(s)\<close> on a string of decimal digits; the one call of the source applies it
  to a group matched by \<open>\d+\<close>. Any other string is refused with ValueError.
\<close>

definition is_digit :: "char \<Rightarrow> bool" where
  "is_digit c = (48 \<le> (of_char c :: nat) \<and> (of_char c :: nat) \<le> 57)"

definition digits_value :: "string \<Rightarrow> int" where
  "digits_value ds = foldl (\<lambda>acc c. 10 * acc + (int (of_char c) - 48)) 0 ds"

definition py_int :: "string \<Rightarrow> exn + int" where
  "py_int ds = (if ds \<noteq> [] \<and> list_all is_digit ds then Inr (digits_value ds) else Inl ValueError)"

text \<open>\<open>s.split(sep)\<close> for a separator of one character.\<close>

fun split_str :: "string \<Rightarrow> char \<Rightarrow> string list" where
  "split_str [] sep = [[]]"
| "split_str (c # cs) sep =
     (if c = sep then [] # split_str cs sep
      else (case split_str cs sep of [] \<Rightarrow> [[c]] | l # ls \<Rightarrow> (c # l) # ls))"

text \<open>\<open>s.replace(old, new)\<close>; \<open>old\<close> is not empty at the two calls of the source.\<close>

fun replace :: "string \<Rightarrow> string \<Rightarrow> string \<Rightarrow> string" where
  "replace [] old new = []"
| "replace (c # cs) old new =
     (if old \<noteq> [] \<and> take (length old) (c # cs) = old
      then new @ replace (drop (length old - 1) cs) old new
      else c # replace cs old new)"

subsection \<open>What Transport imports and what its subclasses supply\<close>

text \<open>
  The modules \<open>drivers\<close>, \<open>OsGuesser\<close> and \<open>Exscript.util.crypt\<close> are not under
  src/, and the hooks \<open>_protocol_authenticate\<close>, \<open>_protocol_authenticate_by_key\<close>
  are overridden by the protocol adapters. They are parameters of the model:
  every theorem holds for all of them.
  \<^item> \<open>driver_table\<close>, \<open>fallback_driver\<close>: the dictionary \<open>driver_map\<close>;
  \<^item> \<open>os_get\<close>: \<open>os_guesser.get('os')\<close>, a function of what the guesser was told;
  \<^item> \<open>otp\<close>: \<open>otp(password, seed, seq)\<close>;
  \<^item> \<open>auto_authorize\<close>: the method \<open>auto_authorize(conn, account, flush)\<close> of the
    driver given first; it may not return, which is \<open>None\<close>.
\<close>

record env =
  driver_table :: "string \<rightharpoonup> driver"
  fallback_driver :: driver
  os_get :: "guess_ev list \<Rightarrow> string"
  otp :: "string \<Rightarrow> string \<Rightarrow> int \<Rightarrow> string"
  u_protocol_authenticate :: "string \<Rightarrow> string \<Rightarrow> state \<Rightarrow> (exn + unit) \<times> state"
  u_protocol_authenticate_by_key :: "string \<Rightarrow> string \<Rightarrow> state \<Rightarrow> (exn + unit) \<times> state"
  auto_authorize :: "driver \<Rightarrow> state \<Rightarrow> account \<Rightarrow> bool \<Rightarrow> ((exn + unit) \<times> state) option"

text \<open>
  Modelled from the spec: the module \<open>drivers\<close> with its dictionary \<open>driver_map\<close>
  is missing. The spec (6, Profile registry) gives \<open>resolve(osIdentifier)\<close> as a
  total function with a defined fallback profile for unknown identifiers.
\<close>

definition driver_map :: "env \<Rightarrow> string \<Rightarrow> driver" where
  "driver_map E os = (case driver_table E os of Some d \<Rightarrow> d | None \<Rightarrow> fallback_driver E)"

definition guess_os :: "env \<Rightarrow> state \<Rightarrow> string" where
  "guess_os E s = os_get E (os_guesser s)"

text \<open>
  Modelled from the spec: \<open>cancel_expect\<close> raises NotImplementedError in Transport
  and is supplied by the adapters, which are missing. The spec (4.5): it sets a
  cooperative cancellation flag.
\<close>

definition cancel_expect :: "state \<Rightarrow> state" where
  "cancel_expect s = s\<lparr>cancel_requested := True\<rparr>"

text \<open>
  Modelled from the spec: \<open>send\<close> raises NotImplementedError in Transport and is
  supplied by the adapters, which are missing. The spec (6, Raw transport):
  \<open>send(bytes)\<close> hands the data to the host and returns without waiting.
\<close>

definition send :: "string \<Rightarrow> state \<Rightarrow> state" where
  "send data s = s\<lparr>sent := sent s @ [data]\<rparr>"

text \<open>Calling an \<open>Event\<close> calls its subscribers in turn.\<close>

definition fire :: "('a \<Rightarrow> bool) list \<Rightarrow> 'a \<Rightarrow> state \<Rightarrow> state" where
  "fire subscribers x s = foldl (\<lambda>s' f. if f x then cancel_expect s' else s') s subscribers"

subsection \<open>Debug output and received data\<close>

definition u_dbg :: "int \<Rightarrow> string \<Rightarrow> state \<Rightarrow> state" where
  "u_dbg level msg s =
     (if debug s < level then s
      else s\<lparr>stderr := stderr s @ [name (get_driver s) @ '': '' @ msg @ [CHR 0x0A]]\<rparr>)"

definition u_driver_replaced_notify :: "driver \<Rightarrow> driver \<Rightarrow> state \<Rightarrow> state" where
  "u_driver_replaced_notify old new s =
     (let s1 = s\<lparr>driver_replaced := True\<rparr>;
          s2 = cancel_expect s1;
          msg = ''Transport: driver replaced: '' @ name old @ '' -> '' @ name new
      in u_dbg 1 msg s2)"

text \<open>
  \<open>_receive_cb\<close> compares the driver in use before and after the guess with
  \<open>!=\<close>. Drivers are compared as values here: the drivers of \<open>driver_map\<close> are
  one object per name.
\<close>

definition u_receive_cb :: "env \<Rightarrow> string \<Rightarrow> state \<Rightarrow> string \<times> state" where
  "u_receive_cb E data0 s =
     (let data = replace data0 [CHR 0x0D, CHR 0x00] [];
          text = replace data [CHR 0x0D] [];
          s1 = s\<lparr>stdout := stdout s @ [text]\<rparr>;
          s2 = (case log s1 of None \<Rightarrow> s1 | Some l \<Rightarrow> s1\<lparr>log := Some (l @ [text])\<rparr>);
          old_driver = get_driver s2;
          s3 = s2\<lparr>os_guesser := os_guesser s2 @ [DataReceived data]\<rparr>;
          os = guess_os E s3;
          s4 = s3\<lparr>auto_driver := driver_map E os\<rparr>;
          new_driver = get_driver s4;
          s5 = (if old_driver \<noteq> new_driver
                then u_driver_replaced_notify old_driver new_driver s4 else s4);
          s6 = fire (data_received_event s5) data s5
      in (data, s6))"

datatype driver_arg = DriverName string | DriverObject driver

definition set_driver :: "env \<Rightarrow> driver_arg option \<Rightarrow> state \<Rightarrow> (exn + unit) \<times> state" where
  "set_driver E drv s =
     (case drv of
        None \<Rightarrow> (Inr (), s\<lparr>manual_driver := None\<rparr>)
      | Some (DriverName n) \<Rightarrow>
          (case driver_table E n of
             None \<Rightarrow> (Inl (TypeError (''no such driver:'' @ repr n)), s)
           | Some d \<Rightarrow> (Inr (), s\<lparr>manual_driver := Some d\<rparr>))
      | Some (DriverObject d) \<Rightarrow> (Inr (), s\<lparr>manual_driver := Some d\<rparr>))"

subsection \<open>Waiting for a pattern\<close>

text \<open>
  The first pattern, in the order of the list, that matches anywhere in the
  buffer, with its index.
\<close>

primrec first_match_from :: "nat \<Rightarrow> regex list \<Rightarrow> string \<Rightarrow> (nat \<times> mtch) option" where
  "first_match_from i [] b = None"
| "first_match_from i (p # ps) b =
     (case re_search p b of
        Some m \<Rightarrow> Some (i, m)
      | None \<Rightarrow> first_match_from (Suc i) ps b)"

definition first_match :: "regex list \<Rightarrow> string \<Rightarrow> (nat \<times> mtch) option" where
  "first_match ps b = first_match_from 0 ps b"

text \<open>One received chunk goes through \<open>_receive_cb\<close>; what it returns is appended to the buffer.\<close>

definition feed :: "env \<Rightarrow> string \<Rightarrow> state \<Rightarrow> state" where
  "feed E d s = (let (data, s1) = u_receive_cb E d s in s1\<lparr>buffer := buffer s1 @ data\<rparr>)"

lemma fire_incoming [simp]: "incoming (fire fs x s) = incoming s"
  unfolding fire_def by (induction fs arbitrary: s) (simp_all add: cancel_expect_def)

lemma u_dbg_incoming [simp]: "incoming (u_dbg l msg s) = incoming s"
  by (simp add: u_dbg_def)

lemma feed_incoming [simp]: "incoming (feed E d s) = incoming s"
  by (simp add: feed_def u_receive_cb_def Let_def u_driver_replaced_notify_def
      cancel_expect_def split: option.split)

text \<open>
  Modelled from the spec: \<open>_domatch(prompt, flush)\<close> is called by \<open>_waitfor\<close> and
  \<open>_expect\<close> and defined by the protocol adapters, which are missing. The spec
  (4.1, 4.2, 4.5, 5): the buffer is searched with the patterns in their order; a
  match stores the text through its end in \<open>response\<close> and, when \<open>flush\<close> is
  set, removes it from the buffer. Without a match the next chunk is received:
  the notification \<open>_receive_cb\<close> runs first, then the cancellation flag is
  looked at and reset (DriverReplaced when the driver was replaced,
  ExpectCancelled otherwise), then the whole buffer is searched again. When the
  host sends nothing more, the wait times out with the buffered text in
  \<open>response\<close> (4.4); when the stream is closed, it ends with EOFError.
\<close>

function u_domatch :: "env \<Rightarrow> regex list \<Rightarrow> bool \<Rightarrow> state \<Rightarrow> (exn + nat \<times> mtch) \<times> state" where
  "u_domatch E prompt flush s =
     (case first_match prompt (buffer s) of
        Some (i, m) \<Rightarrow>
          (Inr (i, m),
           s\<lparr>response := Some (take (m_end m) (buffer s)),
             buffer := (if flush then drop (m_end m) (buffer s) else buffer s)\<rparr>)
      | None \<Rightarrow>
          (case incoming s of
             [] \<Rightarrow>
               (Inl (TimeoutException ''Error while waiting for response from device''),
                s\<lparr>response := Some (buffer s)\<rparr>)
           | Eof # rest \<Rightarrow> (Inl EOFError, s\<lparr>response := Some (buffer s)\<rparr>)
           | Chunk d # rest \<Rightarrow>
               (let s1 = feed E d (s\<lparr>incoming := rest\<rparr>) in
                if cancel_requested s1 then
                  (if driver_replaced s1
                   then (Inl DriverReplacedException,
                         s1\<lparr>cancel_requested := False, driver_replaced := False\<rparr>)
                   else (Inl ExpectCancelledException, s1\<lparr>cancel_requested := False\<rparr>))
                else u_domatch E prompt flush s1)))"
  by pat_completeness auto
termination
  by (relation "measure (\<lambda>(E, prompt, flush, s). length (incoming s))") auto

declare u_domatch.simps [simp del]

definition u_waitfor :: "env \<Rightarrow> regex list \<Rightarrow> state \<Rightarrow> (exn + nat \<times> mtch) \<times> state" where
  "u_waitfor E prompt s =
     (case u_domatch E prompt False s of
        (Inl e, s1) \<Rightarrow> (Inl e, s1)
      | (Inr result, s1) \<Rightarrow> (Inr result, s1\<lparr>os_guesser := os_guesser s1 @ [ResponseReceived]\<rparr>))"

definition u_expect :: "env \<Rightarrow> regex list \<Rightarrow> state \<Rightarrow> (exn + nat \<times> mtch) \<times> state" where
  "u_expect E prompt s =
     (case u_domatch E prompt True s of
        (Inl e, s1) \<Rightarrow> (Inl e, s1)
      | (Inr result, s1) \<Rightarrow> (Inr result, s1\<lparr>os_guesser := os_guesser s1 @ [ResponseReceived]\<rparr>))"

lemma u_domatch_replaced_incoming:
  "u_domatch E prompt flush s = (Inl DriverReplacedException, s1) \<Longrightarrow>
   length (incoming s1) < length (incoming s)"
proof (induction E prompt flush s rule: u_domatch.induct)
  case (1 E prompt flush s)
  show ?case
  proof (cases "first_match prompt (buffer s)")
    case (Some a)
    with "1.prems" show ?thesis
      by (simp add: u_domatch.simps [of E prompt flush s] split: prod.splits)
  next
    case None
    show ?thesis
    proof (cases "incoming s")
      case Nil
      with None "1.prems" show ?thesis
        by (simp add: u_domatch.simps [of E prompt flush s])
    next
      case (Cons r rest)
      show ?thesis
      proof (cases r)
        case Eof
        with None Cons "1.prems" show ?thesis
          by (simp add: u_domatch.simps [of E prompt flush s])
      next
        case (Chunk d)
        let ?s1 = "feed E d (s\<lparr>incoming := rest\<rparr>)"
        show ?thesis
        proof (cases "cancel_requested ?s1")
          case True
          with None Cons Chunk "1.prems" show ?thesis
            by (auto simp add: u_domatch.simps [of E prompt flush s] Let_def split: if_splits)
        next
          case False
          with None Cons Chunk "1.prems"
          have "u_domatch E prompt flush ?s1 = (Inl DriverReplacedException, s1)"
            by (simp add: u_domatch.simps [of E prompt flush s] Let_def)
          with "1.IH" [OF None Cons Chunk refl False]
          have "length (incoming s1) < length (incoming ?s1)" by simp
          with Cons show ?thesis by simp
        qed
      qed
    qed
  qed
qed

lemma u_waitfor_replaced_incoming:
  "u_waitfor E prompt s = (Inl DriverReplacedException, s1) \<Longrightarrow>
   length (incoming s1) < length (incoming s)"
  by (auto simp: u_waitfor_def split: prod.splits sum.splits dest: u_domatch_replaced_incoming)

lemma u_expect_replaced_incoming:
  "u_expect E prompt s = (Inl DriverReplacedException, s1) \<Longrightarrow>
   length (incoming s1) < length (incoming s)"
  by (auto simp: u_expect_def split: prod.splits sum.splits dest: u_domatch_replaced_incoming)

text \<open>
  \<open>waitfor\<close> and \<open>expect\<close>: \<open>while True\<close>, retrying after DriverReplacedException.
  Each retry has received at least one more chunk, so the loops end.
\<close>

function waitfor :: "env \<Rightarrow> regex list \<Rightarrow> state \<Rightarrow> (exn + nat \<times> mtch) \<times> state" where
  "waitfor E prompt s =
     (let (result, s1) = u_waitfor E prompt s in
      if result = Inl DriverReplacedException then waitfor E prompt s1
      else (result, s1))"
  by pat_completeness auto
termination
  by (relation "measure (\<lambda>(E, prompt, s). length (incoming s))")
    (auto dest: u_waitfor_replaced_incoming [OF sym])

declare waitfor.simps [simp del]

function expect :: "env \<Rightarrow> regex list \<Rightarrow> state \<Rightarrow> (exn + nat \<times> mtch) \<times> state" where
  "expect E prompt s =
     (let (result, s1) = u_expect E prompt s in
      if result = Inl DriverReplacedException then expect E prompt s1
      else (result, s1))"
  by pat_completeness auto
termination
  by (relation "measure (\<lambda>(E, prompt, s). length (incoming s))")
    (auto dest: u_expect_replaced_incoming [OF sym])

declare expect.simps [simp del]

subsection \<open>expect\_prompt and execute\<close>

text \<open>
  The inner loop of \<open>expect_prompt\<close>, \<open>for prompt in self.get_error_prompt()\<close>.
  It carries the two local variables \<open>match\<close> and \<open>prompt\<close>; its body is
  \<open>if prompt.match(line): break\<close>, which binds \<open>prompt\<close> and leaves \<open>match\<close> as
  it is.
\<close>

fun error_prompt_loop ::
  "regex list \<Rightarrow> string \<Rightarrow> mtch option \<times> regex option \<Rightarrow> mtch option \<times> regex option" where
  "error_prompt_loop [] line vars = vars"
| "error_prompt_loop (prompt # prompts) line (match, _) =
     (if re_match prompt line \<noteq> None then (match, Some prompt)
      else error_prompt_loop prompts line (match, Some prompt))"

text \<open>
  The outer loop, \<open>for line in self.response.split('\n')[1:]\<close>: \<open>match = None\<close>,
  the inner loop, \<open>continue\<close> when \<open>match is None\<close>, and otherwise the debug
  message and \<open>raise InvalidCommandException('Device said:\n' + self.response)\<close>.
  Without a \<open>return\<close> the method hands back \<open>None\<close>.
\<close>

fun error_line_loop :: "string list \<Rightarrow> regex option \<Rightarrow> state \<Rightarrow> (exn + pyval) \<times> state" where
  "error_line_loop [] prompt s = (Inr PyNone, s)"
| "error_line_loop (line # lines) prompt s =
     (let match = None;
          (match, prompt) = error_prompt_loop (get_error_prompt s) line (match, prompt)
      in if match = None then error_line_loop lines prompt s
         else (case prompt of
                 None \<Rightarrow> (Inl UnboundLocalError, s)
               | Some p \<Rightarrow>
                   (let error = repr (re_pattern p);
                        s1 = u_dbg 5 (''error prompt ('' @ error @ '') matches '' @ repr line) s
                    in (Inl (InvalidCommandException
                              (''Device said:'' @ [CHR 0x0A] @ the (response s1))), s1))))"

definition expect_prompt :: "env \<Rightarrow> state \<Rightarrow> (exn + pyval) \<times> state" where
  "expect_prompt E s =
     (case expect E (get_prompt s) s of
        (Inl e, s1) \<Rightarrow> (Inl e, s1)
      | (Inr _, s1) \<Rightarrow>
          (let s2 = u_dbg 5 (''Checking '' @ repr_opt (response s1) @ '' for errors'') s1 in
           case response s2 of
             None \<Rightarrow> (Inl AttributeError, s2)
           | Some r \<Rightarrow> error_line_loop (tl (split_str r (CHR 0x0A))) None s2))"

text \<open>\<open>self.send(command + '\r'); return self.expect_prompt()\<close>\<close>

definition execute :: "env \<Rightarrow> string \<Rightarrow> state \<Rightarrow> (exn + pyval) \<times> state" where
  "execute E command s = (let s1 = send (command @ [CHR 0x0D]) s in expect_prompt E s1)"

subsection \<open>Accounts and protocol level authentication\<close>

definition u_get_account :: "account option \<Rightarrow> state \<Rightarrow> (exn + account) \<times> state" where
  "u_get_account account s =
     (let account = (case account of None \<Rightarrow> last_account s | Some a \<Rightarrow> Some a) in
      case account of
        None \<Rightarrow> (Inl (TypeError ''An account is required''), s)
      | Some a \<Rightarrow> (Inr a, s\<lparr>last_account := Some a\<rparr>))"

definition authenticate :: "env \<Rightarrow> account option \<Rightarrow> bool \<Rightarrow> state \<Rightarrow> (exn + unit) \<times> state" where
  "authenticate E account flush s =
     (case u_get_account account s of
        (Inl e, s1) \<Rightarrow> (Inl e, s1)
      | (Inr account, s1) \<Rightarrow>
          (let user = get_name account;
               password = get_password account;
               key = get_key account
           in case (case key of
                      None \<Rightarrow>
                        u_protocol_authenticate E user password
                          (u_dbg 1 (''Attempting to authenticate '' @ user @ ''.'') s1)
                    | Some k \<Rightarrow>
                        u_protocol_authenticate_by_key E user k
                          (u_dbg 1 (''Authenticate '' @ user @ '' with key.'') s1)) of
                (Inl e, s2) \<Rightarrow> (Inl e, s2)
              | (Inr _, s2) \<Rightarrow>
                  (let s3 = s2\<lparr>authenticated := True\<rparr> in
                   if flush then
                     (case expect_prompt E s3 of
                        (Inl e, s4) \<Rightarrow> (Inl e, s4)
                      | (Inr _, s4) \<Rightarrow> (Inr (), s4))
                   else (Inr (), s3))))"

definition is_authenticated :: "state \<Rightarrow> bool" where
  "is_authenticated s = authenticated s"

subsection \<open>The one-time-password challenge\<close>

text \<open>
  \<open>_skey_re = re.compile(r'(?:s\/key|otp-md4) (\d+) (\S+)')\<close>: one of the two
  words, a space, the decimal digits of group 1, a space, and the characters
  other than white space of group 2. Both groups are greedy and nothing follows
  them, so each takes the longest run. \<open>search\<close> finds the leftmost match.
\<close>

definition is_space :: "char \<Rightarrow> bool" where
  "is_space c =
     (c = CHR 0x20 \<or> c = CHR 0x09 \<or> c = CHR 0x0A \<or> c = CHR 0x0B \<or> c = CHR 0x0C \<or> c = CHR 0x0D)"

definition strip_prefix :: "string \<Rightarrow> string \<Rightarrow> string option" where
  "strip_prefix p s = (if take (length p) s = p then Some (drop (length p) s) else None)"

definition skey_match_at :: "string \<Rightarrow> (nat \<times> string list) option" where
  "skey_match_at s =
     (case (case strip_prefix ''s/key '' s of
              Some r \<Rightarrow> Some (6, r)
            | None \<Rightarrow> (case strip_prefix ''otp-md4 '' s of
                         Some r \<Rightarrow> Some (8, r)
                       | None \<Rightarrow> None)) of
        None \<Rightarrow> None
      | Some (n, r) \<Rightarrow>
          (let ds = takeWhile is_digit r; r1 = dropWhile is_digit r in
           if ds = [] then None
           else (case r1 of
                   [] \<Rightarrow> None
                 | c # r2 \<Rightarrow>
                     (if c \<noteq> CHR 0x20 then None
                      else (let seed = takeWhile (\<lambda>c. \<not> is_space c) r2 in
                            if seed = [] then None
                            else Some (n + length ds + 1 + length seed, [ds, seed]))))))"

fun skey_search_from :: "nat \<Rightarrow> string \<Rightarrow> mtch option" where
  "skey_search_from i s =
     (case skey_match_at s of
        Some (n, gs) \<Rightarrow> Some \<lparr>m_start = i, m_end = i + n, m_groups = gs\<rparr>
      | None \<Rightarrow> (case s of [] \<Rightarrow> None | c # cs \<Rightarrow> skey_search_from (Suc i) cs))"

declare skey_search_from.simps [simp del]

definition u_skey_re :: regex where
  "u_skey_re =
     \<lparr>re_pattern = ''(?:s'' @ [CHR 0x5C] @ ''/key|otp-md4) ('' @ [CHR 0x5C] @ ''d+) (''
                    @ [CHR 0x5C] @ ''S+)'',
      re_search = skey_search_from 0,
      re_match = (\<lambda>s. case skey_match_at s of
                        Some (n, gs) \<Rightarrow> Some \<lparr>m_start = 0, m_end = n, m_groups = gs\<rparr>
                      | None \<Rightarrow> None)\<rparr>"

definition u_otp_cb :: "int \<Rightarrow> string \<Rightarrow> state \<Rightarrow> state" where
  "u_otp_cb seq seed s = fire (otp_requested_event s) (seq, seed) s"

subsection \<open>Application level authentication\<close>

text \<open>The tuple \<open>prompts\<close> of \<open>_app_authenticate\<close> and the two lists built from it.\<close>

definition prompts :: "state \<Rightarrow> (string \<times> regex list) list" where
  "prompts s =
     [(''login-error'', get_login_error_prompt s),
      (''username'', get_username_prompt s),
      (''skey'', [u_skey_re]),
      (''password'', get_password_prompt s),
      (''cli'', get_prompt s)]"

definition prompt_map :: "(string \<times> regex list) list \<Rightarrow> (string \<times> regex) list" where
  "prompt_map ps =
     concat (map (\<lambda>(section, sectionprompts). map (\<lambda>prompt. (section, prompt)) sectionprompts) ps)"

definition prompt_list :: "(string \<times> regex list) list \<Rightarrow> regex list" where
  "prompt_list ps = map snd (prompt_map ps)"

text \<open>
  The body of \<open>while True\<close> in \<open>_app_authenticate\<close>. It ends with \<open>continue\<close>,
  with \<open>break\<close>, or with an exception.
\<close>

datatype ctl = Continue | Break

definition skey_section ::
  "env \<Rightarrow> string \<Rightarrow> regex \<Rightarrow> mtch \<Rightarrow> state \<Rightarrow> (exn + ctl) \<times> state" where
  "skey_section E password prompt match s1 =
     (let s2 = u_dbg 1 ''S/Key prompt received.'' s1 in
      case expect E [prompt] s2 of
        (Inl e, s3) \<Rightarrow> (Inl e, s3)
      | (Inr _, s3) \<Rightarrow>
          (case group match 1 of
             Inl e \<Rightarrow> (Inl e, s3)
           | Inr g1 \<Rightarrow>
               (case py_int g1 of
                  Inl e \<Rightarrow> (Inl e, s3)
                | Inr seq \<Rightarrow>
                    (case group match 2 of
                       Inl e \<Rightarrow> (Inl e, s3)
                     | Inr seed \<Rightarrow>
                         (let s4 = u_otp_cb seq seed s3;
                              s5 = u_dbg 2 (''Seq: '' @ str_int seq @ '', Seed: '' @ seed) s4;
                              phrase = otp E password seed seq
                          in case expect E (get_password_prompt s5) s5 of
                               (Inl e, s6) \<Rightarrow> (Inl e, s6)
                             | (Inr _, s6) \<Rightarrow>
                                 (let s7 = send (phrase @ [CHR 0x0D]) s6;
                                      s8 = u_dbg 1 ''Password sent.'' s7
                                  in (Inr Continue, s8)))))))"

definition app_authenticate_step ::
  "env \<Rightarrow> string \<Rightarrow> string \<Rightarrow> state \<Rightarrow> (exn + ctl) \<times> state" where
  "app_authenticate_step E user password s =
     (let pm = prompt_map (prompts s);
          pl = prompt_list (prompts s)
      in case u_waitfor E pl s of
           (Inl e, s1) \<Rightarrow>
             (case e of
                TimeoutException _ \<Rightarrow>
                  (let s2 = (if response s1 = None then s1\<lparr>response := Some []\<rparr> else s1);
                       msg = ''Buffer: '' @ repr_opt (response s2)
                   in (Inl (TimeoutException msg), s2))
              | DriverReplacedException \<Rightarrow>
                  (Inr Continue, u_dbg 1 ''Transport.app_authenticate(): driver replaced'' s1)
              | ExpectCancelledException \<Rightarrow>
                  (Inl e, u_dbg 1 ''Transport.app_authenticate(): expect cancelled'' s1)
              | EOFError \<Rightarrow> (Inl e, u_dbg 1 ''Transport.app_authenticate(): EOF'' s1)
              | _ \<Rightarrow> (Inl e, s1))
         | (Inr (index, match), s1) \<Rightarrow>
             (if length pm \<le> index then (Inl IndexError, s1)
              else (let (section, prompt) = pm ! index in
                if section = ''login-error'' then (Inl (LoginFailure ''Login failed''), s1)
                else if section = ''username'' then
                  (let s2 = u_dbg 1 (''Username prompt '' @ str_nat index @ '' received.'') s1 in
                   case expect E [prompt] s2 of
                     (Inl e, s3) \<Rightarrow> (Inl e, s3)
                   | (Inr _, s3) \<Rightarrow> (Inr Continue, send (user @ [CHR 0x0D]) s3))
                else if section = ''skey'' then skey_section E password prompt match s1
                else if section = ''password'' then
                  (let s2 = u_dbg 1 ''Cleartext password prompt received.'' s1 in
                   case expect E [prompt] s2 of
                     (Inl e, s3) \<Rightarrow> (Inl e, s3)
                   | (Inr _, s3) \<Rightarrow> (Inr Continue, send (password @ [CHR 0x0D]) s3))
                else if section = ''cli'' then (Inr Break, u_dbg 1 ''Shell prompt received.'' s1)
                else (Inl AssertionError, s1))))"

text \<open>
  The loop itself. A pattern that matches the empty string is found again at
  every turn, so the loop need not end: not returning is \<open>None\<close>.
\<close>

partial_function (option) u_app_authenticate ::
  "env \<Rightarrow> string \<Rightarrow> string \<Rightarrow> bool \<Rightarrow> state \<Rightarrow> ((exn + unit) \<times> state) option" where
  "u_app_authenticate E user password flush s =
     (case app_authenticate_step E user password s of
        (Inl e, s1) \<Rightarrow> Some (Inl e, s1)
      | (Inr c, s1) \<Rightarrow>
          (case c of
             Continue \<Rightarrow> u_app_authenticate E user password flush s1
           | Break \<Rightarrow>
               (if flush then
                  (case expect_prompt E s1 of
                     (Inl e, s2) \<Rightarrow> Some (Inl e, s2)
                   | (Inr _, s2) \<Rightarrow> Some (Inr (), s2))
                else Some (Inr (), s1))))"

definition app_authenticate ::
  "env \<Rightarrow> account option \<Rightarrow> bool \<Rightarrow> state \<Rightarrow> ((exn + unit) \<times> state) option" where
  "app_authenticate E account flush s =
     (case u_get_account account s of
        (Inl e, s1) \<Rightarrow> Some (Inl e, s1)
      | (Inr account, s1) \<Rightarrow>
          (let user = get_name account;
               password = get_password account;
               s2 = u_dbg 1 (''Attempting to app-authenticate '' @ user @ ''.'') s1
           in case u_app_authenticate E user password flush s2 of
                None \<Rightarrow> None
              | Some (Inl e, s3) \<Rightarrow> Some (Inl e, s3)
              | Some (Inr _, s3) \<Rightarrow> Some (Inr (), s3\<lparr>app_authenticated := True\<rparr>)))"

definition is_app_authenticated :: "state \<Rightarrow> bool" where
  "is_app_authenticated s = app_authenticated s"

definition app_authorize ::
  "env \<Rightarrow> account option \<Rightarrow> bool \<Rightarrow> state \<Rightarrow> ((exn + unit) \<times> state) option" where
  "app_authorize E account flush s =
     (case u_get_account account s of
        (Inl e, s1) \<Rightarrow> Some (Inl e, s1)
      | (Inr account, s1) \<Rightarrow>
          (let user = get_name account;
               password = (case get_authorization_password account of
                             None \<Rightarrow> get_password account
                           | Some p \<Rightarrow> p);
               s2 = u_dbg 1 (''Attempting to app-authorize '' @ user @ ''.'') s1
           in case u_app_authenticate E user password flush s2 of
                None \<Rightarrow> None
              | Some (Inl e, s3) \<Rightarrow> Some (Inl e, s3)
              | Some (Inr _, s3) \<Rightarrow> Some (Inr (), s3\<lparr>app_authorized := True\<rparr>)))"

definition auto_app_authorize ::
  "env \<Rightarrow> account option \<Rightarrow> bool \<Rightarrow> state \<Rightarrow> ((exn + unit) \<times> state) option" where
  "auto_app_authorize E account flush s =
     (case u_get_account account s of
        (Inl e, s1) \<Rightarrow> Some (Inl e, s1)
      | (Inr account, s1) \<Rightarrow>
          (let s2 = u_dbg 1 ''Calling driver.auto_authorize().'' s1
           in auto_authorize E (get_driver s2) s2 account flush))"

definition is_app_authorized :: "state \<Rightarrow> bool" where
  "is_app_authorized s = app_authorized s"

subsection \<open>login\<close>

definition login ::
  "env \<Rightarrow> account option \<Rightarrow> account option \<Rightarrow> bool \<Rightarrow> state \<Rightarrow> ((exn + unit) \<times> state) option" where
  "login E account app_account flush s =
     (case u_get_account account s of
        (Inl e, s1) \<Rightarrow> Some (Inl e, s1)
      | (Inr account, s1) \<Rightarrow>
          (let app_account = (case app_account of None \<Rightarrow> account | Some a \<Rightarrow> a) in
           case authenticate E (Some account) False s1 of
             (Inl e, s2) \<Rightarrow> Some (Inl e, s2)
           | (Inr _, s2) \<Rightarrow>
               (case app_authenticate E (Some app_account) False s2 of
                  None \<Rightarrow> None
                | Some (Inl e, s3) \<Rightarrow> Some (Inl e, s3)
                | Some (Inr _, s3) \<Rightarrow> auto_app_authorize E (Some app_account) flush s3)))"

subsection \<open>A concrete session\<close>

text \<open>
  The instances at which the theorems are tried: regular expressions that match
  a literal text, two drivers, a guesser that says \<open>ios\<close> once the host has sent
  the word \<open>Cisco\<close>, a one-time-password function, and a Transport as
  \<open>__init__\<close> leaves it when no keyword argument is given.
\<close>

fun find_from :: "nat \<Rightarrow> string \<Rightarrow> string \<Rightarrow> nat option" where
  "find_from i p [] = (if p = [] then Some i else None)"
| "find_from i p (c # cs) =
     (if take (length p) (c # cs) = p then Some i else find_from (Suc i) p cs)"

definition lit :: "string \<Rightarrow> regex" where
  "lit p =
     \<lparr>re_pattern = p,
      re_search = (\<lambda>s. case find_from 0 p s of
                         None \<Rightarrow> None
                       | Some i \<Rightarrow> Some \<lparr>m_start = i, m_end = i + length p, m_groups = []\<rparr>),
      re_match = (\<lambda>s. if take (length p) s = p
                      then Some \<lparr>m_start = 0, m_end = length p, m_groups = []\<rparr> else None)\<rparr>"

definition generic_driver :: driver where
  "generic_driver =
     \<lparr>name = ''generic'',
      user_re = [lit ''sername:''],
      password_re = [lit ''assword:''],
      prompt_re = [lit ''> ''],
      error_re = [lit ''% Invalid''],
      login_error_re = [lit ''Login failed'']\<rparr>"

definition ios_driver :: driver where
  "ios_driver =
     \<lparr>name = ''ios'',
      user_re = [lit ''Username:''],
      password_re = [lit ''Password:''],
      prompt_re = [lit ''# ''],
      error_re = [lit ''% ''],
      login_error_re = [lit ''% Authentication failed'']\<rparr>"

definition says_cisco :: "guess_ev \<Rightarrow> bool" where
  "says_cisco ev =
     (case ev of
        DataReceived d \<Rightarrow> find_from 0 ''Cisco'' d \<noteq> None
      | ResponseReceived \<Rightarrow> False)"

definition E0 :: env where
  "E0 =
     \<lparr>driver_table = [''generic'' \<mapsto> generic_driver, ''ios'' \<mapsto> ios_driver],
      fallback_driver = generic_driver,
      os_get = (\<lambda>evs. if list_ex says_cisco evs then ''ios'' else ''unknown''),
      otp = (\<lambda>password seed seq. password @ ''/'' @ seed @ ''/'' @ str_int seq),
      u_protocol_authenticate = (\<lambda>user password s. (Inr (), s)),
      u_protocol_authenticate_by_key = (\<lambda>user key s. (Inr (), s)),
      auto_authorize = (\<lambda>d s account flush. Some (Inr (), s))\<rparr>"

definition S0 :: state where
  "S0 =
     \<lparr>data_received_event = [],
      otp_requested_event = [],
      os_guesser = [],
      auto_driver = driver_map E0 (os_get E0 []),
      authenticated = False,
      app_authenticated = False,
      app_authorized = False,
      manual_user_re = None,
      manual_password_re = None,
      manual_prompt_re = None,
      manual_error_re = None,
      manual_login_error_re = None,
      driver_replaced = False,
      manual_driver = None,
      last_account = None,
      stdout = [],
      stderr = [],
      debug = 0,
      log = None,
      response = None,
      buffer = [],
      incoming = [],
      cancel_requested = False,
      sent = []\<rparr>"

text \<open>A Transport whose five manual prompts are set to one pattern each.\<close>

definition S_manual :: state where
  "S_manual =
     set_login_error_prompt (Some [lit ''denied''])
       (set_error_prompt (Some [lit ''error''])
         (set_prompt (Some [lit ''$ ''])
           (set_password_prompt (Some [lit ''pass:''])
             (set_username_prompt (Some [lit ''user:'']) S0))))"

text \<open>A Transport whose driver is pinned with \<open>set_driver\<close>.\<close>

definition S_pinned :: state where
  "S_pinned = snd (set_driver E0 (Some (DriverObject generic_driver)) S0)"

text \<open>
  A host that answers \<open>show foo\<close> with an error line, and one that answers
  \<open>show version\<close> without one. Each answer starts with the echo of the command
  and ends with the prompt.
\<close>

definition reply_invalid :: string where
  "reply_invalid =
     ''show foo'' @ [CHR 0x0D, CHR 0x0A] @ ''% Invalid input'' @ [CHR 0x0D, CHR 0x0A]
       @ ''router> ''"

definition S_invalid :: state where
  "S_invalid = S0\<lparr>incoming := [Chunk reply_invalid]\<rparr>"

definition reply_version :: string where
  "reply_version =
     ''show version'' @ [CHR 0x0D, CHR 0x0A] @ ''Version 1.0'' @ [CHR 0x0D, CHR 0x0A]
       @ ''router> ''"

definition S_version :: state where
  "S_version = S0\<lparr>incoming := [Chunk reply_version]\<rparr>"

text \<open>
  Two accounts, without and with a key, and adapters whose protocol level login
  leaves a mark in what is sent.
\<close>

definition alice :: account where
  "alice = \<lparr>get_name = ''alice'', get_password = ''secret'',
            get_authorization_password = None, get_key = None\<rparr>"

definition alice_key :: account where
  "alice_key = alice\<lparr>get_key := Some ''id_rsa''\<rparr>"

definition E_ssh :: env where
  "E_ssh =
     E0\<lparr>u_protocol_authenticate :=
          (\<lambda>user password s. (Inr (), send (''password '' @ password) s)),
        u_protocol_authenticate_by_key :=
          (\<lambda>user key s. (Inr (), send (''key '' @ key) s))\<rparr>"

text \<open>A host that shows its prompt at once.\<close>

definition S_prompt :: state where
  "S_prompt = S0\<lparr>incoming := [Chunk ''router> '']\<rparr>"

text \<open>
  Four hosts: one that sends a greeting and then nothing, one that announces
  itself as Cisco before its prompt, one that asks for a one-time password, and
  one that asks for a user name and a password.
\<close>

definition S_silent :: state where
  "S_silent = S0\<lparr>incoming := [Chunk ''Welcome'']\<rparr>"

definition S_cisco :: state where
  "S_cisco = S0\<lparr>incoming := [Chunk ''Cisco IOS'', Chunk ''router# '']\<rparr>"

definition challenge :: string where
  "challenge = ''otp-md4 87 ke1234'' @ [CHR 0x0D, CHR 0x0A]"

definition S_otp :: state where
  "S_otp = S0\<lparr>incoming := [Chunk challenge, Chunk ''Password:'', Chunk ''router> '']\<rparr>"

text \<open>A host whose every chunk makes a subscriber cancel the wait.\<close>

definition S_cancel :: state where
  "S_cancel = S0\<lparr>data_received_event := [\<lambda>data. True], incoming := [Chunk ''bye'']\<rparr>"

definition S_login :: state where
  "S_login = S0\<lparr>incoming := [Chunk ''Username:'', Chunk ''Password:'', Chunk ''router> '']\<rparr>"

subsection \<open>The course of a wait\<close>

text \<open>The attributes that no wait writes, and a buffer that only grows.\<close>

definition grows :: "state \<Rightarrow> state \<Rightarrow> bool" where
  "grows s s1 =
     (sent s1 = sent s \<and> authenticated s1 = authenticated s \<and>
      manual_driver s1 = manual_driver s \<and>
      manual_user_re s1 = manual_user_re s \<and>
      manual_password_re s1 = manual_password_re s \<and>
      manual_prompt_re s1 = manual_prompt_re s \<and>
      manual_error_re s1 = manual_error_re s \<and>
      manual_login_error_re s1 = manual_login_error_re s \<and>
      (\<exists>rest. buffer s1 = buffer s @ rest))"

text \<open>
  The states a wait goes through: it receives chunk after chunk, as long as no
  cancellation is requested.
\<close>

inductive fed :: "env \<Rightarrow> state \<Rightarrow> state \<Rightarrow> bool" for E :: env where
  fed_refl: "fed E s s"
| fed_step: "incoming s = Chunk d # rest \<Longrightarrow>
             \<not> cancel_requested (feed E d (s\<lparr>incoming := rest\<rparr>)) \<Longrightarrow>
             fed E (feed E d (s\<lparr>incoming := rest\<rparr>)) s1 \<Longrightarrow> fed E s s1"

definition stops :: "env \<Rightarrow> regex list \<Rightarrow> state \<Rightarrow> bool" where
  "stops E prompt s =
     (first_match prompt (buffer s) \<noteq> None \<or>
      (case incoming s of
         [] \<Rightarrow> True
       | Eof # rest \<Rightarrow> True
       | Chunk d # rest \<Rightarrow> cancel_requested (feed E d (s\<lparr>incoming := rest\<rparr>))))"

text \<open>
  What the host sends before it closes the stream, as \<open>_receive_cb\<close> hands it
  on, and what a wait can still see: the buffer followed by that.
\<close>

fun received :: "rx list \<Rightarrow> string" where
  "received [] = []"
| "received (Chunk d # rest) = replace d [CHR 0x0D, CHR 0x00] [] @ received rest"
| "received (Eof # rest) = []"

definition stream :: "state \<Rightarrow> string" where
  "stream s = buffer s @ received (incoming s)"

subsection \<open>The pipeline of login\<close>

text \<open>
  The pipeline of \<open>login\<close> in the words of the specification: each operation
  runs on the state the one before it has left and only when that one has
  returned without an exception.
\<close>

definition and_then ::
  "((exn + 'a) \<times> state) option \<Rightarrow> ('a \<Rightarrow> state \<Rightarrow> ((exn + 'b) \<times> state) option)
   \<Rightarrow> ((exn + 'b) \<times> state) option" where
  "and_then r f =
     (case r of
        None \<Rightarrow> None
      | Some (Inl e, s) \<Rightarrow> Some (Inl e, s)
      | Some (Inr v, s) \<Rightarrow> f v s)"

definition login_pipeline ::
  "env \<Rightarrow> account option \<Rightarrow> account option \<Rightarrow> bool \<Rightarrow> state \<Rightarrow> ((exn + unit) \<times> state) option" where
  "login_pipeline E account app_account flush s =
     and_then (Some (u_get_account account s)) (\<lambda>credential s1.
       and_then (Some (authenticate E (Some credential) False s1)) (\<lambda>_ s2.
         and_then (app_authenticate E
                    (Some (case app_account of None \<Rightarrow> credential | Some a \<Rightarrow> a)) False s2) (\<lambda>_ s3.
           auto_app_authorize E
             (Some (case app_account of None \<Rightarrow> credential | Some a \<Rightarrow> a)) flush s3)))"

section \<open>Properties\<close>

subsection \<open>Attributes that an operation leaves alone\<close>

lemma u_dbg_fields [simp]:
  "buffer (u_dbg l msg s) = buffer s"
  "sent (u_dbg l msg s) = sent s"
  "response (u_dbg l msg s) = response s"
  "cancel_requested (u_dbg l msg s) = cancel_requested s"
  "driver_replaced (u_dbg l msg s) = driver_replaced s"
  "manual_driver (u_dbg l msg s) = manual_driver s"
  "auto_driver (u_dbg l msg s) = auto_driver s"
  "manual_user_re (u_dbg l msg s) = manual_user_re s"
  "manual_password_re (u_dbg l msg s) = manual_password_re s"
  "manual_prompt_re (u_dbg l msg s) = manual_prompt_re s"
  "manual_error_re (u_dbg l msg s) = manual_error_re s"
  "manual_login_error_re (u_dbg l msg s) = manual_login_error_re s"
  "authenticated (u_dbg l msg s) = authenticated s"
  "debug (u_dbg l msg s) = debug s"
  "otp_requested_event (u_dbg l msg s) = otp_requested_event s"
  by (simp_all add: u_dbg_def)

lemma u_dbg_get_driver [simp]: "get_driver (u_dbg l msg s) = get_driver s"
  by (simp add: get_driver_def split: option.split)

lemma u_dbg_getters [simp]:
  "get_prompt (u_dbg l msg s) = get_prompt s"
  "get_error_prompt (u_dbg l msg s) = get_error_prompt s"
  "get_password_prompt (u_dbg l msg s) = get_password_prompt s"
  "get_username_prompt (u_dbg l msg s) = get_username_prompt s"
  "get_login_error_prompt (u_dbg l msg s) = get_login_error_prompt s"
  by (simp_all add: get_prompt_def get_error_prompt_def get_password_prompt_def
      get_username_prompt_def get_login_error_prompt_def)

lemma fire_fields [simp]:
  "buffer (fire fs x s) = buffer s"
  "sent (fire fs x s) = sent s"
  "authenticated (fire fs x s) = authenticated s"
  "manual_driver (fire fs x s) = manual_driver s"
  "auto_driver (fire fs x s) = auto_driver s"
  "manual_user_re (fire fs x s) = manual_user_re s"
  "manual_password_re (fire fs x s) = manual_password_re s"
  "manual_prompt_re (fire fs x s) = manual_prompt_re s"
  "manual_error_re (fire fs x s) = manual_error_re s"
  "manual_login_error_re (fire fs x s) = manual_login_error_re s"
  "driver_replaced (fire fs x s) = driver_replaced s"
  "stderr (fire fs x s) = stderr s"
  "response (fire fs x s) = response s"
  unfolding fire_def by (induction fs arbitrary: s) (simp_all add: cancel_expect_def)

lemma fire_cancel_requested:
  "cancel_requested (fire fs x s) = (cancel_requested s \<or> list_ex (\<lambda>f. f x) fs)"
  unfolding fire_def by (induction fs arbitrary: s) (auto simp: cancel_expect_def)

lemma fire_get_driver [simp]: "get_driver (fire fs x s) = get_driver s"
  by (simp add: get_driver_def split: option.split)

lemma grows_refl [simp]: "grows s s"
  by (simp add: grows_def)

lemma grows_trans: "grows s s1 \<Longrightarrow> grows s1 s2 \<Longrightarrow> grows s s2"
  by (auto simp: grows_def)

lemma feed_grows: "grows s (feed E d s)"
  by (simp add: grows_def feed_def u_receive_cb_def Let_def u_driver_replaced_notify_def
      cancel_expect_def split: option.split)

lemma feed_quiet_get_driver:
  "\<not> cancel_requested (feed E d s) \<Longrightarrow> get_driver (feed E d s) = get_driver s"
  by (auto simp add: feed_def u_receive_cb_def Let_def u_driver_replaced_notify_def
      cancel_expect_def fire_cancel_requested get_driver_def split: option.splits if_splits)

lemma u_domatch_fed:
  "\<exists>s'. fed E s s' \<and> stops E prompt s' \<and>
        u_domatch E prompt flush s = u_domatch E prompt flush s'"
proof (induction E prompt flush s rule: u_domatch.induct)
  case (1 E prompt flush s)
  show ?case
  proof (cases "stops E prompt s")
    case True
    then show ?thesis using fed_refl by blast
  next
    case False
    then have n: "first_match prompt (buffer s) = None"
      by (cases "first_match prompt (buffer s)") (auto simp: stops_def)
    from False obtain d rest where i: "incoming s = Chunk d # rest"
      by (cases "incoming s"; cases "hd (incoming s)") (auto simp: stops_def)
    from False i have c: "\<not> cancel_requested (feed E d (s\<lparr>incoming := rest\<rparr>))"
      by (simp add: stops_def)
    let ?s1 = "feed E d (s\<lparr>incoming := rest\<rparr>)"
    from "1.IH" [OF n i refl refl c] obtain s' where
      s': "fed E ?s1 s'" "stops E prompt s'"
      "u_domatch E prompt flush ?s1 = u_domatch E prompt flush s'"
      by blast
    have "u_domatch E prompt flush s = u_domatch E prompt flush ?s1"
      using n i c by (simp add: u_domatch.simps [of E prompt flush s] Let_def)
    with s' fed_step [OF i c s'(1)] show ?thesis by auto
  qed
qed

lemma fed_grows: "fed E s s1 \<Longrightarrow> grows s s1"
proof (induction rule: fed.induct)
  case (fed_refl s)
  show ?case by simp
next
  case (fed_step s d rest s1)
  have "grows s (s\<lparr>incoming := rest\<rparr>)" by (simp add: grows_def)
  then show ?case
    using feed_grows [of "s\<lparr>incoming := rest\<rparr>" E d] fed_step.IH grows_trans by blast
qed

lemma fed_get_driver: "fed E s s1 \<Longrightarrow> get_driver s1 = get_driver s"
proof (induction rule: fed.induct)
  case (fed_refl s)
  show ?case by simp
next
  case (fed_step s d rest s1)
  have "get_driver (s\<lparr>incoming := rest\<rparr>) = get_driver s"
    by (simp add: get_driver_def split: option.split)
  with fed_step feed_quiet_get_driver [of E d "s\<lparr>incoming := rest\<rparr>"] show ?case by simp
qed

text \<open>The outcomes of a wait.\<close>

lemma u_domatch_match:
  assumes "u_domatch E prompt flush s = (Inr (i, m), s1)"
  shows "\<exists>s'. fed E s s' \<and> first_match prompt (buffer s') = Some (i, m) \<and>
           s1 = s'\<lparr>response := Some (take (m_end m) (buffer s')),
                   buffer := (if flush then drop (m_end m) (buffer s') else buffer s')\<rparr>"
proof -
  from u_domatch_fed [of E s prompt flush] obtain s' where
    s': "fed E s s'" "stops E prompt s'"
    "u_domatch E prompt flush s = u_domatch E prompt flush s'" by blast
  with assms have r: "u_domatch E prompt flush s' = (Inr (i, m), s1)" by simp
  have "first_match prompt (buffer s') = Some (i, m) \<and>
        s1 = s'\<lparr>response := Some (take (m_end m) (buffer s')),
                buffer := (if flush then drop (m_end m) (buffer s') else buffer s')\<rparr>"
    using r s'(2)
    by (auto simp add: u_domatch.simps [of E prompt flush s'] stops_def Let_def
        split: option.splits list.splits rx.splits if_splits)
  with s'(1) show ?thesis by blast
qed

lemma u_domatch_fail_grows:
  assumes "u_domatch E prompt flush s = (Inl e, s1)"
  shows "grows s s1"
proof -
  from u_domatch_fed [of E s prompt flush] obtain s' where
    s': "fed E s s'" "stops E prompt s'"
    "u_domatch E prompt flush s = u_domatch E prompt flush s'" by blast
  with assms have r: "u_domatch E prompt flush s' = (Inl e, s1)" by simp
  have "grows s' s1"
  proof (cases "incoming s'")
    case Nil
    with r show ?thesis
      by (auto simp add: u_domatch.simps [of E prompt flush s'] grows_def
          split: option.splits)
  next
    case (Cons x rest)
    show ?thesis
    proof (cases x)
      case Eof
      with Cons r show ?thesis
        by (auto simp add: u_domatch.simps [of E prompt flush s'] grows_def
            split: option.splits)
    next
      case (Chunk d)
      have g: "grows s' (feed E d (s'\<lparr>incoming := rest\<rparr>))"
        using feed_grows [of "s'\<lparr>incoming := rest\<rparr>" E d] by (simp add: grows_def)
      from Chunk Cons r s'(2) g show ?thesis
        by (auto simp add: u_domatch.simps [of E prompt flush s'] stops_def Let_def grows_def
            split: option.splits if_splits)
    qed
  qed
  with fed_grows [OF s'(1)] show ?thesis using grows_trans by blast
qed

lemma u_domatch_timeout:
  assumes "u_domatch E prompt flush s = (Inl (TimeoutException msg), s1)"
  shows "response s1 = Some (buffer s1) \<and> first_match prompt (buffer s1) = None \<and>
         incoming s1 = []"
proof -
  from u_domatch_fed [of E s prompt flush] obtain s' where
    s': "fed E s s'" "stops E prompt s'"
    "u_domatch E prompt flush s = u_domatch E prompt flush s'" by blast
  with assms have r: "u_domatch E prompt flush s' = (Inl (TimeoutException msg), s1)" by simp
  then show ?thesis using s'(2)
    by (auto simp add: u_domatch.simps [of E prompt flush s'] stops_def Let_def
        split: option.splits list.splits rx.splits if_splits)
qed

subsection \<open>The outcomes of expect and waitfor\<close>

lemma u_domatch_errors:
  assumes "u_domatch E prompt flush s = (Inl e, s1)"
  shows "e = TimeoutException ''Error while waiting for response from device'' \<or>
         e = EOFError \<or> e = DriverReplacedException \<or> e = ExpectCancelledException"
proof -
  from u_domatch_fed [of E s prompt flush] obtain s' where
    s': "stops E prompt s'"
    "u_domatch E prompt flush s = u_domatch E prompt flush s'" by blast
  with assms have r: "u_domatch E prompt flush s' = (Inl e, s1)" by simp
  then show ?thesis using s'(1)
    by (auto simp add: u_domatch.simps [of E prompt flush s'] stops_def Let_def
        split: option.splits list.splits rx.splits if_splits)
qed

lemma expect_fail:
  "expect E prompt s = (Inl e, s1) \<Longrightarrow>
   grows s s1 \<and>
   (e = TimeoutException ''Error while waiting for response from device'' \<or>
    e = EOFError \<or> e = ExpectCancelledException)"
proof (induction E prompt s rule: expect.induct)
  case (1 E prompt s)
  obtain r s0 where u: "u_expect E prompt s = (r, s0)"
    by (cases "u_expect E prompt s")
  show ?case
  proof (cases "r = Inl DriverReplacedException")
    case True
    with u have d: "u_domatch E prompt True s = (Inl DriverReplacedException, s0)"
      by (auto simp: u_expect_def split: prod.splits sum.splits)
    from u True "1.prems" have "expect E prompt s0 = (Inl e, s1)"
      by (simp add: expect.simps [of E prompt s])
    from "1.IH" [OF refl u [symmetric] True this] u_domatch_fail_grows [OF d]
    show ?thesis using grows_trans by blast
  next
    case False
    with u "1.prems" have "r = Inl e" "s0 = s1"
      by (simp_all add: expect.simps [of E prompt s])
    with u have d: "u_domatch E prompt True s = (Inl e, s1)"
      by (auto simp: u_expect_def split: prod.splits sum.splits)
    from u_domatch_fail_grows [OF d] u_domatch_errors [OF d] False \<open>r = Inl e\<close>
    show ?thesis by auto
  qed
qed

lemma expect_match:
  "expect E prompt s = (Inr (i, m), s1) \<Longrightarrow>
   \<exists>s'. grows s s' \<and> first_match prompt (buffer s') = Some (i, m) \<and>
        s1 = s'\<lparr>response := Some (take (m_end m) (buffer s')),
                buffer := drop (m_end m) (buffer s'),
                os_guesser := os_guesser s' @ [ResponseReceived]\<rparr>"
proof (induction E prompt s rule: expect.induct)
  case (1 E prompt s)
  obtain r s0 where u: "u_expect E prompt s = (r, s0)"
    by (cases "u_expect E prompt s")
  show ?case
  proof (cases "r = Inl DriverReplacedException")
    case True
    with u have d: "u_domatch E prompt True s = (Inl DriverReplacedException, s0)"
      by (auto simp: u_expect_def split: prod.splits sum.splits)
    from u True "1.prems" have "expect E prompt s0 = (Inr (i, m), s1)"
      by (simp add: expect.simps [of E prompt s])
    from "1.IH" [OF refl u [symmetric] True this] u_domatch_fail_grows [OF d]
    show ?thesis using grows_trans by blast
  next
    case False
    with u "1.prems" have "r = Inr (i, m)" "s0 = s1"
      by (simp_all add: expect.simps [of E prompt s])
    with u obtain s2 where d: "u_domatch E prompt True s = (Inr (i, m), s2)"
      and s1: "s1 = s2\<lparr>os_guesser := os_guesser s2 @ [ResponseReceived]\<rparr>"
      by (auto simp: u_expect_def split: prod.splits sum.splits)
    from u_domatch_match [OF d] obtain s' where
      "fed E s s'" "first_match prompt (buffer s') = Some (i, m)"
      "s2 = s'\<lparr>response := Some (take (m_end m) (buffer s')),
                buffer := (if True then drop (m_end m) (buffer s') else buffer s')\<rparr>"
      by blast
    with s1 fed_grows show ?thesis by auto
  qed
qed

subsection \<open>The error scan of expect\_prompt\<close>

lemma error_prompt_loop_match: "fst (error_prompt_loop ps line (m, p)) = m"
  by (induction ps arbitrary: p) simp_all

lemma error_line_loop_passes: "error_line_loop lines p s = (Inr PyNone, s)"
proof (induction lines arbitrary: p)
  case Nil
  show ?case by simp
next
  case (Cons line lines)
  obtain m q where l: "error_prompt_loop (get_error_prompt s) line (None, p) = (m, q)"
    by (cases "error_prompt_loop (get_error_prompt s) line (None, p)")
  with error_prompt_loop_match [of "get_error_prompt s" line None p] have "m = None" by simp
  with l Cons show ?case by simp
qed

lemma expect_prompt_eq:
  "expect_prompt E s =
     (case expect E (get_prompt s) s of
        (Inl e, s1) \<Rightarrow> (Inl e, s1)
      | (Inr r, s1) \<Rightarrow>
          (case response s1 of
             None \<Rightarrow> (Inl AttributeError,
                       u_dbg 5 (''Checking '' @ repr_opt (response s1) @ '' for errors'') s1)
           | Some t \<Rightarrow> (Inr PyNone,
                       u_dbg 5 (''Checking '' @ repr_opt (response s1) @ '' for errors'') s1)))"
  by (simp add: expect_prompt_def Let_def error_line_loop_passes
      split: prod.splits sum.splits option.splits)

lemma expect_prompt_match:
  assumes "expect_prompt E s = (Inr v, s1)"
  shows "v = PyNone \<and>
         (\<exists>s' i m. grows s s' \<and> first_match (get_prompt s) (buffer s') = Some (i, m) \<and>
            s1 = u_dbg 5 (''Checking '' @ repr (take (m_end m) (buffer s')) @ '' for errors'')
                  (s'\<lparr>response := Some (take (m_end m) (buffer s')),
                      buffer := drop (m_end m) (buffer s'),
                      os_guesser := os_guesser s' @ [ResponseReceived]\<rparr>))"
proof -
  from assms obtain i m s2 where e: "expect E (get_prompt s) s = (Inr (i, m), s2)"
    by (auto simp: expect_prompt_eq split: prod.splits sum.splits option.splits)
  from expect_match [OF e] obtain s' where s': "grows s s'"
    "first_match (get_prompt s) (buffer s') = Some (i, m)"
    "s2 = s'\<lparr>response := Some (take (m_end m) (buffer s')),
              buffer := drop (m_end m) (buffer s'),
              os_guesser := os_guesser s' @ [ResponseReceived]\<rparr>" by blast
  from assms e s'(3) have "v = PyNone"
    and "s1 = u_dbg 5 (''Checking '' @ repr (take (m_end m) (buffer s')) @ '' for errors'') s2"
    by (auto simp: expect_prompt_eq repr_opt_def)
  with s' show ?thesis by blast
qed

lemma expect_prompt_fail:
  assumes "expect_prompt E s = (Inl e, s1)"
  shows "e = TimeoutException ''Error while waiting for response from device'' \<or>
         e = EOFError \<or> e = ExpectCancelledException"
proof -
  from assms have "expect E (get_prompt s) s = (Inl e, s1)"
  proof (cases "expect E (get_prompt s) s")
    case (Pair r s2)
    show ?thesis
    proof (cases r)
      case (Inl a)
      with Pair assms show ?thesis by (simp add: expect_prompt_eq)
    next
      case (Inr b)
      obtain i m where "b = (i, m)" by (cases b)
      with Inr Pair expect_match [of E "get_prompt s" s i m s2]
      have "response s2 \<noteq> None" by auto
      with Inr Pair assms show ?thesis
        by (auto simp add: expect_prompt_eq split: option.splits)
    qed
  qed
  with expect_fail show ?thesis by blast
qed

lemma execute_never_raises_invalid_command:
  "fst (execute E command s) \<noteq> Inl (InvalidCommandException msg)"
proof
  assume a: "fst (execute E command s) = Inl (InvalidCommandException msg)"
  obtain s1 where "expect_prompt E (send (command @ [CHR 0x0D]) s)
      = (Inl (InvalidCommandException msg), s1)"
    using a by (cases "expect_prompt E (send (command @ [CHR 0x0D]) s)")
      (simp add: execute_def Let_def)
  from expect_prompt_fail [OF this] show False by simp
qed


lemma grows_send: "grows (send d s) s1 \<Longrightarrow> sent s1 = sent s @ [d] \<and> (\<exists>rest. buffer s1 = buffer s @ rest)"
  by (auto simp: grows_def send_def)

lemma expect_prompt_consumes:
  assumes "expect_prompt E s = (Inr v, s1)"
  shows "v = PyNone \<and> sent s1 = sent s \<and> authenticated s1 = authenticated s \<and>
         (\<exists>i m rest. first_match (get_prompt s) (buffer s @ rest) = Some (i, m) \<and>
            response s1 = Some (take (m_end m) (buffer s @ rest)) \<and>
            buffer s1 = drop (m_end m) (buffer s @ rest))"
proof -
  from expect_prompt_match [OF assms] obtain s' i m where v: "v = PyNone"
    and g: "grows s s'" and f: "first_match (get_prompt s) (buffer s') = Some (i, m)"
    and s1: "s1 = u_dbg 5 (''Checking '' @ repr (take (m_end m) (buffer s')) @ '' for errors'')
                  (s'\<lparr>response := Some (take (m_end m) (buffer s')),
                      buffer := drop (m_end m) (buffer s'),
                      os_guesser := os_guesser s' @ [ResponseReceived]\<rparr>)"
    by blast
  from g obtain rest where b: "buffer s' = buffer s @ rest"
    and fr: "sent s' = sent s" "authenticated s' = authenticated s"
    by (auto simp: grows_def)
  from s1 have r: "response s1 = Some (take (m_end m) (buffer s'))"
    "buffer s1 = drop (m_end m) (buffer s')" "sent s1 = sent s'"
    "authenticated s1 = authenticated s'"
    by simp_all
  from f b have "first_match (get_prompt s) (buffer s @ rest) = Some (i, m)" by simp
  moreover from r b have "response s1 = Some (take (m_end m) (buffer s @ rest))"
    "buffer s1 = drop (m_end m) (buffer s @ rest)"
    by (simp_all del: take_append drop_append)
  ultimately show ?thesis using v r fr by metis
qed

subsection \<open>The match that a wait returns\<close>

lemma first_match_from_index:
  "first_match_from k ps b = Some (i, m) \<Longrightarrow>
   k \<le> i \<and> i - k < length ps \<and> re_search (ps ! (i - k)) b = Some m"
proof (induction ps arbitrary: k)
  case Nil
  then show ?case by simp
next
  case (Cons p ps)
  show ?case
  proof (cases "re_search p b")
    case None
    with Cons.prems have "first_match_from (Suc k) ps b = Some (i, m)" by simp
    from Cons.IH [OF this] have
      "Suc k \<le> i" "i - Suc k < length ps" "re_search (ps ! (i - Suc k)) b = Some m"
      by simp_all
    moreover from \<open>Suc k \<le> i\<close> have "i - k = Suc (i - Suc k)" by simp
    ultimately show ?thesis by simp
  next
    case (Some a)
    with Cons.prems show ?thesis by simp
  qed
qed

lemma first_match_index:
  "first_match ps b = Some (i, m) \<Longrightarrow> i < length ps \<and> re_search (ps ! i) b = Some m"
  using first_match_from_index [of 0 ps b i m] by (simp add: first_match_def)

lemma first_match_single:
  "re_search p b = Some m \<Longrightarrow> first_match [p] b = Some (0, m)"
  by (simp add: first_match_def)

lemma u_waitfor_match:
  assumes "u_waitfor E prompt s = (Inr (i, m), s1)"
  shows "\<exists>s'. fed E s s' \<and> first_match prompt (buffer s') = Some (i, m) \<and>
           s1 = s'\<lparr>response := Some (take (m_end m) (buffer s')),
                   buffer := buffer s',
                   os_guesser := os_guesser s' @ [ResponseReceived]\<rparr>"
proof -
  from assms obtain s2 where d: "u_domatch E prompt False s = (Inr (i, m), s2)"
    and s1: "s1 = s2\<lparr>os_guesser := os_guesser s2 @ [ResponseReceived]\<rparr>"
    by (auto simp: u_waitfor_def split: prod.splits sum.splits)
  from u_domatch_match [OF d] s1 show ?thesis by auto
qed

lemma u_waitfor_fail:
  assumes "u_waitfor E prompt s = (Inl e, s1)"
  shows "u_domatch E prompt False s = (Inl e, s1)"
  using assms by (auto simp: u_waitfor_def split: prod.splits sum.splits)

lemma waitfor_not_replaced: "fst (waitfor E prompt s) \<noteq> Inl DriverReplacedException"
proof (induction E prompt s rule: waitfor.induct)
  case (1 E prompt s)
  obtain r s0 where u: "u_waitfor E prompt s = (r, s0)"
    by (cases "u_waitfor E prompt s")
  show ?case
  proof (cases "r = Inl DriverReplacedException")
    case True
    with u "1.IH" [OF refl u [symmetric] True] show ?thesis
      by (simp add: waitfor.simps [of E prompt s])
  next
    case False
    with u show ?thesis by (simp add: waitfor.simps [of E prompt s])
  qed
qed

lemma expect_not_replaced: "fst (expect E prompt s) \<noteq> Inl DriverReplacedException"
proof
  assume a: "fst (expect E prompt s) = Inl DriverReplacedException"
  then obtain s1 where "expect E prompt s = (Inl DriverReplacedException, s1)"
    by (cases "expect E prompt s") simp
  from expect_fail [OF this] show False by simp
qed

subsection \<open>The prompts of the race\<close>

lemma prompt_map_prompts:
  "prompt_map (prompts s) =
     map (Pair ''login-error'') (get_login_error_prompt s) @
     map (Pair ''username'') (get_username_prompt s) @
     [(''skey'', u_skey_re)] @
     map (Pair ''password'') (get_password_prompt s) @
     map (Pair ''cli'') (get_prompt s)"
  by (simp add: prompt_map_def prompts_def)

lemma prompt_list_nth:
  "i < length (prompt_map ps) \<Longrightarrow> prompt_list ps ! i = snd (prompt_map ps ! i)"
  by (simp add: prompt_list_def)

lemma prompt_list_length: "length (prompt_list ps) = length (prompt_map ps)"
  by (simp add: prompt_list_def)

lemma prompt_map_sections:
  assumes "(section, p) \<in> set (prompt_map (prompts s))"
  shows "(section = ''skey'' \<longrightarrow> p = u_skey_re) \<and>
         (section = ''cli'' \<longrightarrow> p \<in> set (get_prompt s)) \<and>
         (section = ''login-error'' \<or> section = ''username'' \<or> section = ''skey'' \<or>
          section = ''password'' \<or> section = ''cli'')"
  using assms by (auto simp: prompt_map_prompts)

subsection \<open>The groups of a challenge\<close>

lemma skey_match_at_groups:
  assumes "skey_match_at s = Some (n, gs)"
  shows "\<exists>ds seed. gs = [ds, seed] \<and> ds \<noteq> [] \<and> list_all is_digit ds \<and> seed \<noteq> []"
proof -
  have "list_all is_digit (takeWhile is_digit r)" for r
    by (simp add: list_all_iff) (meson set_takeWhileD)
  with assms show ?thesis
    by (auto simp: skey_match_at_def Let_def split: option.splits list.splits if_splits)
qed

lemma skey_search_from_groups:
  "skey_search_from i s = Some m \<Longrightarrow>
   \<exists>ds seed. m_groups m = [ds, seed] \<and> ds \<noteq> [] \<and> list_all is_digit ds \<and> seed \<noteq> []"
proof (induction s arbitrary: i)
  case Nil
  then show ?case
    by (auto simp: skey_search_from.simps [of i "[]"] split: option.splits
        dest: skey_match_at_groups)
next
  case (Cons c cs)
  show ?case
  proof (cases "skey_match_at (c # cs)")
    case None
    with Cons.prems have "skey_search_from (Suc i) cs = Some m"
      by (simp add: skey_search_from.simps [of i "c # cs"])
    from Cons.IH [OF this] show ?thesis .
  next
    case (Some a)
    obtain n gs where "a = (n, gs)" by (cases a)
    with Some Cons.prems skey_match_at_groups [of "c # cs" n gs] show ?thesis
      by (auto simp: skey_search_from.simps [of i "c # cs"])
  qed
qed

lemma skey_groups:
  assumes "re_search u_skey_re b = Some m"
  shows "\<exists>ds seed seq. m_groups m = [ds, seed] \<and> group m 1 = Inr ds \<and>
           py_int ds = Inr seq \<and> group m 2 = Inr seed"
proof -
  from assms have "skey_search_from 0 b = Some m" by (simp add: u_skey_re_def)
  from skey_search_from_groups [OF this] show ?thesis
    by (auto simp: group_def py_int_def)
qed


subsection \<open>One turn of the race\<close>

lemma expect_immediate:
  "first_match prompt (buffer s) = Some (i, m) \<Longrightarrow>
   expect E prompt s =
     (Inr (i, m), s\<lparr>response := Some (take (m_end m) (buffer s)),
                     buffer := drop (m_end m) (buffer s),
                     os_guesser := os_guesser s @ [ResponseReceived]\<rparr>)"
  by (simp add: expect.simps [of E prompt s] u_expect_def u_domatch.simps [of E prompt True s])

lemma expect_replaced_never [simp]:
  "expect E prompt s \<noteq> (Inl DriverReplacedException, s1)"
  using expect_not_replaced [of E prompt s] by auto

lemma expect_prompt_replaced_never [simp]:
  "expect_prompt E s \<noteq> (Inl DriverReplacedException, s1)"
  using expect_prompt_fail [of E s DriverReplacedException s1] by auto

lemma group_error: "group m n = Inl e \<Longrightarrow> e = IndexError"
  by (auto simp: group_def split: if_splits)

lemma py_int_error: "py_int ds = Inl e \<Longrightarrow> e = ValueError"
  by (auto simp: py_int_def split: if_splits)

lemma skey_section_not_replaced:
  "skey_section E password prompt match s \<noteq> (Inl DriverReplacedException, s1)"
  by (auto simp: skey_section_def Let_def split: prod.splits sum.splits
      dest: group_error py_int_error)

lemma step_timeout:
  assumes "u_waitfor E (prompt_list (prompts s)) s = (Inl (TimeoutException msg), s1)"
  shows "app_authenticate_step E user password s =
           (Inl (TimeoutException (''Buffer: '' @ repr (buffer s1))), s1) \<and>
         response s1 = Some (buffer s1) \<and>
         first_match (prompt_list (prompts s)) (buffer s1) = None \<and>
         (\<exists>rest. buffer s1 = buffer s @ rest)"
proof -
  from u_waitfor_fail [OF assms]
  have d: "u_domatch E (prompt_list (prompts s)) False s = (Inl (TimeoutException msg), s1)" .
  from u_domatch_timeout [OF d] u_domatch_fail_grows [OF d] assms show ?thesis
    by (simp add: app_authenticate_step_def Let_def repr_opt_def grows_def)
qed

lemma step_replaced:
  assumes "u_waitfor E (prompt_list (prompts s)) s = (Inl DriverReplacedException, s1)"
  shows "app_authenticate_step E user password s =
           (Inr Continue, u_dbg 1 ''Transport.app_authenticate(): driver replaced'' s1)"
  using assms by (simp add: app_authenticate_step_def Let_def)

lemma step_cancelled:
  assumes "u_waitfor E (prompt_list (prompts s)) s = (Inl ExpectCancelledException, s1)"
  shows "app_authenticate_step E user password s =
           (Inl ExpectCancelledException,
            u_dbg 1 ''Transport.app_authenticate(): expect cancelled'' s1)"
  using assms by (simp add: app_authenticate_step_def Let_def)

lemma step_eof:
  assumes "u_waitfor E (prompt_list (prompts s)) s = (Inl EOFError, s1)"
  shows "app_authenticate_step E user password s =
           (Inl EOFError, u_dbg 1 ''Transport.app_authenticate(): EOF'' s1)"
  using assms by (simp add: app_authenticate_step_def Let_def)

text \<open>What a match of the race says about the state it leaves.\<close>

lemma race_match:
  assumes "u_waitfor E (prompt_list (prompts s)) s = (Inr (i, m), s1)"
  shows "i < length (prompt_map (prompts s)) \<and>
         prompt_map (prompts s) ! i \<in> set (prompt_map (prompts s)) \<and>
         re_search (snd (prompt_map (prompts s) ! i)) (buffer s1) = Some m \<and>
         first_match (prompt_list (prompts s)) (buffer s1) = Some (i, m) \<and>
         (\<exists>rest. buffer s1 = buffer s @ rest) \<and> sent s1 = sent s \<and>
         get_prompt s1 = get_prompt s \<and> get_password_prompt s1 = get_password_prompt s"
proof -
  from u_waitfor_match [OF assms] obtain s' where f: "fed E s s'"
    and fm: "first_match (prompt_list (prompts s)) (buffer s') = Some (i, m)"
    and s1: "s1 = s'\<lparr>response := Some (take (m_end m) (buffer s')),
                   buffer := buffer s',
                   os_guesser := os_guesser s' @ [ResponseReceived]\<rparr>" by blast
  from first_match_index [OF fm] have i: "i < length (prompt_map (prompts s))"
    and r: "re_search (prompt_list (prompts s) ! i) (buffer s') = Some m"
    by (simp_all add: prompt_list_length)
  from s1 have b: "buffer s1 = buffer s'" by simp
  from fed_grows [OF f] have g: "grows s s'" .
  from fed_get_driver [OF f] have gd: "get_driver s' = get_driver s" .
  have gd1: "get_driver s1 = get_driver s'"
    using s1 by (simp add: get_driver_def split: option.split)
  from g s1 gd gd1 have "get_prompt s1 = get_prompt s"
    "get_password_prompt s1 = get_password_prompt s"
    by (simp_all add: get_prompt_def get_password_prompt_def grows_def)
  moreover from g s1 have "sent s1 = sent s" "\<exists>rest. buffer s1 = buffer s @ rest"
    by (auto simp: grows_def)
  ultimately show ?thesis
    using i r fm b by (simp add: prompt_list_nth)
qed

lemma step_section:
  assumes "u_waitfor E (prompt_list (prompts s)) s = (Inr (i, m), s1)"
    and "prompt_map (prompts s) ! i = (section, prompt)"
  shows "app_authenticate_step E user password s =
     (if section = ''login-error'' then (Inl (LoginFailure ''Login failed''), s1)
      else if section = ''username'' then
        (let s2 = u_dbg 1 (''Username prompt '' @ str_nat i @ '' received.'') s1 in
         case expect E [prompt] s2 of
           (Inl e, s3) \<Rightarrow> (Inl e, s3)
         | (Inr _, s3) \<Rightarrow> (Inr Continue, send (user @ [CHR 0x0D]) s3))
      else if section = ''skey'' then skey_section E password prompt m s1
      else if section = ''password'' then
        (let s2 = u_dbg 1 ''Cleartext password prompt received.'' s1 in
         case expect E [prompt] s2 of
           (Inl e, s3) \<Rightarrow> (Inl e, s3)
         | (Inr _, s3) \<Rightarrow> (Inr Continue, send (password @ [CHR 0x0D]) s3))
      else if section = ''cli'' then (Inr Break, u_dbg 1 ''Shell prompt received.'' s1)
      else (Inl AssertionError, s1))"
proof -
  from race_match [OF assms(1)] have "\<not> length (prompt_map (prompts s)) \<le> i" by simp
  with assms show ?thesis
    by (simp add: app_authenticate_step_def Let_def)
qed


lemma step_not_replaced:
  "app_authenticate_step E user password s \<noteq> (Inl DriverReplacedException, s1)"
proof
  assume a: "app_authenticate_step E user password s = (Inl DriverReplacedException, s1)"
  obtain r s0 where w: "u_waitfor E (prompt_list (prompts s)) s = (r, s0)"
    by (cases "u_waitfor E (prompt_list (prompts s)) s")
  show False
  proof (cases r)
    case (Inl e)
    with a w show False
      by (cases e) (simp_all add: app_authenticate_step_def Let_def split: if_splits)
  next
    case (Inr b)
    obtain i m where b: "b = (i, m)" by (cases b)
    obtain sec prompt where pm: "prompt_map (prompts s) ! i = (sec, prompt)"
      by (cases "prompt_map (prompts s) ! i")
    from w Inr b have w': "u_waitfor E (prompt_list (prompts s)) s = (Inr (i, m), s0)"
      by simp
    have u: "(case expect E p s2 of (Inl e, s3) \<Rightarrow> (Inl e, s3)
             | (Inr x, s3) \<Rightarrow> (Inr Continue, g s3)) \<noteq> (Inl DriverReplacedException, s1)"
      for p s2 and g :: "state \<Rightarrow> state"
      by (cases "expect E p s2") (auto split: sum.splits)
    from a show False
      unfolding step_section [OF w' pm]
      by (simp add: Let_def skey_section_not_replaced u split: if_splits)
  qed
qed

lemma u_app_authenticate_not_replaced:
  assumes "u_app_authenticate E user password flush s = Some r"
  shows "fst r \<noteq> Inl DriverReplacedException"
proof (rule u_app_authenticate.raw_induct
    [where P = "\<lambda>E user password flush s r. fst r \<noteq> Inl DriverReplacedException",
      OF _ assms])
  fix f E user password flush s r
  assume IH: "\<And>E user password flush s r.
      f E user password flush s = Some r \<Longrightarrow> fst r \<noteq> Inl DriverReplacedException"
    and b: "(case app_authenticate_step E user password s of
        (Inl e, s1) \<Rightarrow> Some (Inl e, s1)
      | (Inr c, s1) \<Rightarrow>
          (case c of
             Continue \<Rightarrow> f E user password flush s1
           | Break \<Rightarrow>
               (if flush then
                  (case expect_prompt E s1 of
                     (Inl e, s2) \<Rightarrow> Some (Inl e, s2)
                   | (Inr _, s2) \<Rightarrow> Some (Inr (), s2))
                else Some (Inr (), s1)))) = Some r"
  show "fst r \<noteq> Inl DriverReplacedException"
  proof (cases "app_authenticate_step E user password s")
    case (Pair a s1)
    show ?thesis
    proof (cases a)
      case (Inl e)
      with Pair b step_not_replaced [of E user password s s1] show ?thesis by auto
    next
      case (Inr c)
      show ?thesis
      proof (cases c)
        case Continue
        with Inr Pair b have "f E user password flush s1 = Some r" by simp
        from IH [OF this] show ?thesis .
      next
        case Break
        show ?thesis
        proof (cases flush)
          case False
          with Break Inr Pair b show ?thesis by auto
        next
          case True
          with Break Inr Pair b show ?thesis
            by (cases "expect_prompt E s1") (auto split: sum.splits)
        qed
      qed
    qed
  qed
qed

lemma expect_consumes:
  assumes "expect E prompt s = (Inr (i, m), s1)"
  shows "sent s1 = sent s \<and>
         (\<exists>rest. first_match prompt (buffer s @ rest) = Some (i, m) \<and>
            response s1 = Some (take (m_end m) (buffer s @ rest)) \<and>
            buffer s1 = drop (m_end m) (buffer s @ rest))"
proof -
  from expect_match [OF assms] obtain s' where g: "grows s s'"
    and f: "first_match prompt (buffer s') = Some (i, m)"
    and s1: "s1 = s'\<lparr>response := Some (take (m_end m) (buffer s')),
                   buffer := drop (m_end m) (buffer s'),
                   os_guesser := os_guesser s' @ [ResponseReceived]\<rparr>" by blast
  from g obtain rest where b: "buffer s' = buffer s @ rest" and fr: "sent s' = sent s"
    by (auto simp: grows_def)
  from s1 have r: "response s1 = Some (take (m_end m) (buffer s'))"
    "buffer s1 = drop (m_end m) (buffer s')" "sent s1 = sent s'"
    by simp_all
  from f b have "first_match prompt (buffer s @ rest) = Some (i, m)" by simp
  moreover from r b have "response s1 = Some (take (m_end m) (buffer s @ rest))"
    "buffer s1 = drop (m_end m) (buffer s @ rest)"
    by (simp_all del: take_append drop_append)
  ultimately show ?thesis using r fr by metis
qed

lemma skey_section_eq:
  assumes "expect E [prompt] (u_dbg 1 ''S/Key prompt received.'' s1) = (Inr x, s3)"
    and "group match 1 = Inr g1" and "py_int g1 = Inr seq" and "group match 2 = Inr seed"
  shows "skey_section E password prompt match s1 =
     (case expect E
             (get_password_prompt
               (u_dbg 2 (''Seq: '' @ str_int seq @ '', Seed: '' @ seed) (u_otp_cb seq seed s3)))
             (u_dbg 2 (''Seq: '' @ str_int seq @ '', Seed: '' @ seed) (u_otp_cb seq seed s3)) of
        (Inl e, s6) \<Rightarrow> (Inl e, s6)
      | (Inr y, s6) \<Rightarrow>
          (Inr Continue,
           u_dbg 1 ''Password sent.'' (send (otp E password seed seq @ [CHR 0x0D]) s6)))"
  using assms by (simp add: skey_section_def Let_def split: prod.splits sum.splits)

subsection \<open>What is received is appended to the buffer\<close>

lemma feed_buffer: "buffer (feed E d s) = buffer s @ replace d [CHR 0x0D, CHR 0x00] []"
  by (simp add: feed_def u_receive_cb_def Let_def u_driver_replaced_notify_def
      cancel_expect_def split: option.split)

lemma feed_stream:
  "incoming s = Chunk d # rest \<Longrightarrow> stream (feed E d (s\<lparr>incoming := rest\<rparr>)) = stream s"
  by (simp add: stream_def feed_buffer)

lemma fed_stream: "fed E s s1 \<Longrightarrow> stream s1 = stream s"
  by (induction rule: fed.induct) (simp_all add: feed_stream)

lemma u_domatch_fail_stream:
  assumes "u_domatch E prompt flush s = (Inl e, s1)"
  shows "stream s1 = stream s"
proof -
  from u_domatch_fed [of E s prompt flush] obtain s' where
    s': "fed E s s'" "stops E prompt s'"
    "u_domatch E prompt flush s = u_domatch E prompt flush s'" by blast
  with assms have r: "u_domatch E prompt flush s' = (Inl e, s1)" by simp
  have "stream s1 = stream s'"
  proof (cases "incoming s'")
    case Nil
    with r show ?thesis
      by (auto simp add: u_domatch.simps [of E prompt flush s'] stream_def
          split: option.splits)
  next
    case (Cons x rest)
    show ?thesis
    proof (cases x)
      case Eof
      with Cons r show ?thesis
        by (auto simp add: u_domatch.simps [of E prompt flush s'] stream_def
            split: option.splits)
    next
      case (Chunk d)
      with Cons have g: "stream (feed E d (s'\<lparr>incoming := rest\<rparr>)) = stream s'"
        by (simp add: feed_stream)
      from Chunk Cons r s'(2) g show ?thesis
        by (auto simp add: u_domatch.simps [of E prompt flush s'] stops_def Let_def stream_def
            split: option.splits if_splits)
    qed
  qed
  with fed_stream [OF s'(1)] show ?thesis by simp
qed

lemma expect_match_stream:
  "expect E prompt s = (Inr (i, m), s1) \<Longrightarrow>
   \<exists>s'. grows s s' \<and> stream s' = stream s \<and>
        first_match prompt (buffer s') = Some (i, m) \<and>
        s1 = s'\<lparr>response := Some (take (m_end m) (buffer s')),
                buffer := drop (m_end m) (buffer s'),
                os_guesser := os_guesser s' @ [ResponseReceived]\<rparr>"
proof (induction E prompt s rule: expect.induct)
  case (1 E prompt s)
  obtain r s0 where u: "u_expect E prompt s = (r, s0)"
    by (cases "u_expect E prompt s")
  show ?case
  proof (cases "r = Inl DriverReplacedException")
    case True
    with u have d: "u_domatch E prompt True s = (Inl DriverReplacedException, s0)"
      by (auto simp: u_expect_def split: prod.splits sum.splits)
    from u True "1.prems" have "expect E prompt s0 = (Inr (i, m), s1)"
      by (simp add: expect.simps [of E prompt s])
    from "1.IH" [OF refl u [symmetric] True this] obtain s' where
      "grows s0 s'" "stream s' = stream s0"
      "first_match prompt (buffer s') = Some (i, m)"
      "s1 = s'\<lparr>response := Some (take (m_end m) (buffer s')),
                buffer := drop (m_end m) (buffer s'),
                os_guesser := os_guesser s' @ [ResponseReceived]\<rparr>" by blast
    note k = this
    from grows_trans [OF u_domatch_fail_grows [OF d] k(1)] have g: "grows s s'" .
    from k(2) u_domatch_fail_stream [OF d] have t: "stream s' = stream s" by simp
    from g t k(3) k(4) show ?thesis by blast
  next
    case False
    with u "1.prems" have "r = Inr (i, m)" "s0 = s1"
      by (simp_all add: expect.simps [of E prompt s])
    with u obtain s2 where d: "u_domatch E prompt True s = (Inr (i, m), s2)"
      and s1: "s1 = s2\<lparr>os_guesser := os_guesser s2 @ [ResponseReceived]\<rparr>"
      by (auto simp: u_expect_def split: prod.splits sum.splits)
    from u_domatch_match [OF d] obtain s' where
      f: "fed E s s'" and "first_match prompt (buffer s') = Some (i, m)"
      "s2 = s'\<lparr>response := Some (take (m_end m) (buffer s')),
                buffer := (if True then drop (m_end m) (buffer s') else buffer s')\<rparr>"
      by blast
    note k = this
    from k(3) s1 have e: "s1 = s'\<lparr>response := Some (take (m_end m) (buffer s')),
                buffer := drop (m_end m) (buffer s'),
                os_guesser := os_guesser s' @ [ResponseReceived]\<rparr>" by simp
    from fed_grows [OF f] fed_stream [OF f] k(2) e show ?thesis by blast
  qed
qed

lemma expect_prompt_fail_expect:
  assumes "expect_prompt E s = (Inl e, s1)"
  shows "expect E (get_prompt s) s = (Inl e, s1)"
proof (cases "expect E (get_prompt s) s")
  case (Pair r s2)
  show ?thesis
  proof (cases r)
    case (Inl a)
    with Pair assms show ?thesis by (simp add: expect_prompt_eq)
  next
    case (Inr b)
    obtain i m where "b = (i, m)" by (cases b)
    with Inr Pair expect_match [of E "get_prompt s" s i m s2]
    have "response s2 \<noteq> None" by auto
    with Inr Pair assms show ?thesis
      by (auto simp add: expect_prompt_eq split: option.splits)
  qed
qed

lemma expect_prompt_sent: "sent (snd (expect_prompt E s)) = sent s"
proof (cases "expect_prompt E s")
  case (Pair r s1)
  show ?thesis
  proof (cases r)
    case (Inl e)
    with Pair expect_fail [OF expect_prompt_fail_expect [of E s e s1]] show ?thesis
      by (simp add: grows_def)
  next
    case (Inr v)
    with Pair expect_prompt_consumes [of E s v s1] show ?thesis by simp
  qed
qed

lemma expect_prompt_stream:
  assumes "expect_prompt E s = (Inr v, s1)"
  shows "\<exists>i m rest. rest @ received (incoming s1) = received (incoming s) \<and>
           first_match (get_prompt s) (buffer s @ rest) = Some (i, m) \<and>
           response s1 = Some (take (m_end m) (buffer s @ rest)) \<and>
           buffer s1 = drop (m_end m) (buffer s @ rest)"
proof -
  from assms obtain i m s2 where e: "expect E (get_prompt s) s = (Inr (i, m), s2)"
    by (auto simp: expect_prompt_eq split: prod.splits sum.splits option.splits)
  from expect_match_stream [OF e] obtain s' where g: "grows s s'"
    and st: "stream s' = stream s"
    and f: "first_match (get_prompt s) (buffer s') = Some (i, m)"
    and s2: "s2 = s'\<lparr>response := Some (take (m_end m) (buffer s')),
              buffer := drop (m_end m) (buffer s'),
              os_guesser := os_guesser s' @ [ResponseReceived]\<rparr>" by blast
  from assms e s2 have
    s1: "s1 = u_dbg 5 (''Checking '' @ repr (take (m_end m) (buffer s')) @ '' for errors'') s2"
    by (auto simp: expect_prompt_eq repr_opt_def)
  from g obtain rest where b: "buffer s' = buffer s @ rest"
    by (auto simp: grows_def)
  from st b have r: "rest @ received (incoming s') = received (incoming s)"
    by (simp add: stream_def)
  from s1 s2 have q: "response s1 = Some (take (m_end m) (buffer s'))"
    "buffer s1 = drop (m_end m) (buffer s')" "incoming s1 = incoming s'"
    by simp_all
  from f b have "first_match (get_prompt s) (buffer s @ rest) = Some (i, m)" by simp
  moreover from q b have "response s1 = Some (take (m_end m) (buffer s @ rest))"
    "buffer s1 = drop (m_end m) (buffer s @ rest)"
    by (simp_all del: take_append drop_append)
  moreover from r q have "rest @ received (incoming s1) = received (incoming s)" by simp
  ultimately show ?thesis by blast
qed

subsection \<open>The concrete session, field by field\<close>

lemma S0_fields:
  "data_received_event S0 = []" "otp_requested_event S0 = []" "os_guesser S0 = []"
  "auto_driver S0 = generic_driver" "authenticated S0 = False"
  "app_authenticated S0 = False" "app_authorized S0 = False"
  "manual_user_re S0 = None" "manual_password_re S0 = None" "manual_prompt_re S0 = None"
  "manual_error_re S0 = None" "manual_login_error_re S0 = None"
  "driver_replaced S0 = False" "manual_driver S0 = None" "last_account S0 = None"
  "stdout S0 = []" "stderr S0 = []" "debug S0 = 0" "log S0 = None" "response S0 = None"
  "buffer S0 = []" "incoming S0 = []" "cancel_requested S0 = False" "sent S0 = []"
  by (simp_all add: S0_def E0_def driver_map_def)

lemma E0_fields:
  "driver_map E0 os = (if os = ''ios'' then ios_driver else generic_driver)"
  "os_get E0 evs = (if list_ex says_cisco evs then ''ios'' else ''unknown'')"
  "otp E0 password seed seq = password @ ''/'' @ seed @ ''/'' @ str_int seq"
  "u_protocol_authenticate E0 user password s = (Inr (), s)"
  "u_protocol_authenticate_by_key E0 user key s = (Inr (), s)"
  "auto_authorize E0 d s account flush = Some (Inr (), s)"
  by (simp_all add: E0_def driver_map_def)

lemma driver_fields:
  "name generic_driver = ''generic''" "user_re generic_driver = [lit ''sername:'']"
  "password_re generic_driver = [lit ''assword:'']" "prompt_re generic_driver = [lit ''> '']"
  "error_re generic_driver = [lit ''% Invalid'']"
  "login_error_re generic_driver = [lit ''Login failed'']"
  "name ios_driver = ''ios''" "user_re ios_driver = [lit ''Username:'']"
  "password_re ios_driver = [lit ''Password:'']" "prompt_re ios_driver = [lit ''# '']"
  "error_re ios_driver = [lit ''% '']"
  "login_error_re ios_driver = [lit ''% Authentication failed'']"
  "generic_driver \<noteq> ios_driver" "ios_driver \<noteq> generic_driver"
  by (auto simp add: generic_driver_def ios_driver_def)

lemma lit_fields:
  "re_pattern (lit p) = p"
  "re_search (lit p) s =
     (case find_from 0 p s of
        None \<Rightarrow> None
      | Some i \<Rightarrow> Some \<lparr>m_start = i, m_end = i + length p, m_groups = []\<rparr>)"
  "re_match (lit p) s =
     (if take (length p) s = p then Some \<lparr>m_start = 0, m_end = length p, m_groups = []\<rparr>
      else None)"
  by (simp_all add: lit_def)

lemma E_ssh_fields:
  "driver_map E_ssh os = (if os = ''ios'' then ios_driver else generic_driver)"
  "os_get E_ssh evs = (if list_ex says_cisco evs then ''ios'' else ''unknown'')"
  "u_protocol_authenticate E_ssh user password s = (Inr (), send (''password '' @ password) s)"
  "u_protocol_authenticate_by_key E_ssh user key s = (Inr (), send (''key '' @ key) s)"
  by (simp_all add: E_ssh_def E0_def driver_map_def)

lemma account_fields:
  "get_name alice = ''alice''" "get_password alice = ''secret''"
  "get_authorization_password alice = None" "get_key alice = None"
  "get_name alice_key = ''alice''" "get_password alice_key = ''secret''"
  "get_authorization_password alice_key = None" "get_key alice_key = Some ''id_rsa''"
  by (simp_all add: alice_def alice_key_def)

lemmas run_defs = expect.simps u_expect_def waitfor.simps u_waitfor_def u_domatch.simps
  feed_def u_receive_cb_def Let_def first_match_def get_driver_def guess_os_def fire_def
  u_driver_replaced_notify_def cancel_expect_def u_dbg_def send_def says_cisco_def
  get_prompt_def get_error_prompt_def get_username_prompt_def get_password_prompt_def
  get_login_error_prompt_def truthy_def S0_fields E0_fields driver_fields lit_fields

lemma run_invalid:
  "execute E0 ''show foo'' S_invalid =
    (Inr PyNone,
     S0\<lparr>sent := [''show foo'' @ [CHR 0x0D]],
         incoming := [],
         stdout := [''show foo'' @ [CHR 0x0A] @ ''% Invalid input'' @ [CHR 0x0A] @ ''router> ''],
         auto_driver := generic_driver,
         response := Some reply_invalid,
         buffer := [],
         os_guesser := [DataReceived reply_invalid, ResponseReceived]\<rparr>)"
  by (simp add: execute_def expect_prompt_eq S_invalid_def reply_invalid_def run_defs)


lemma run_version:
  "execute E0 ''show version'' S_version =
    (Inr PyNone,
     S0\<lparr>sent := [''show version'' @ [CHR 0x0D]],
         incoming := [],
         stdout := [''show version'' @ [CHR 0x0A] @ ''Version 1.0'' @ [CHR 0x0A] @ ''router> ''],
         auto_driver := generic_driver,
         response := Some reply_version,
         buffer := [],
         os_guesser := [DataReceived reply_version, ResponseReceived]\<rparr>)"
  by (simp add: execute_def expect_prompt_eq S_version_def reply_version_def run_defs)

lemma run_authenticate_key:
  "authenticate E_ssh (Some alice_key) False S0 =
     (Inr (), S0\<lparr>last_account := Some alice_key, sent := [''key id_rsa''],
                  authenticated := True\<rparr>)"
  by (simp add: authenticate_def u_get_account_def account_fields E_ssh_fields run_defs)

lemma run_authenticate_password:
  "authenticate E_ssh (Some alice) True S_prompt =
     (Inr (), S0\<lparr>incoming := [], last_account := Some alice, sent := [''password secret''],
                  authenticated := True, stdout := [''router> ''],
                  auto_driver := generic_driver, response := Some ''router> '',
                  buffer := [],
                  os_guesser := [DataReceived ''router> '', ResponseReceived]\<rparr>)"
  by (simp add: authenticate_def u_get_account_def account_fields E_ssh_fields S_prompt_def
      expect_prompt_eq run_defs)

lemma skey_fields: "re_search u_skey_re s = skey_search_from 0 s"
  by (simp add: u_skey_re_def)

lemmas race_defs = app_authenticate_step_def skey_section_def prompts_def prompt_map_def
  prompt_list_def u_otp_cb_def skey_fields skey_search_from.simps skey_match_at_def
  strip_prefix_def is_digit_def is_space_def py_int_def digits_value_def group_def
  str_int_def digit_char_def repr_opt_def repr_def repr_char_def expect_prompt_eq

lemma run_silent_wait:
  "u_waitfor E0 (prompt_list (prompts S_silent)) S_silent =
     (Inl (TimeoutException ''Error while waiting for response from device''),
      S0\<lparr>incoming := [], stdout := [''Welcome''],
          os_guesser := [DataReceived ''Welcome''],
          auto_driver := generic_driver, buffer := ''Welcome'',
          response := Some ''Welcome''\<rparr>)"
  by (simp add: S_silent_def race_defs run_defs)

lemma run_prompt_wait:
  "u_waitfor E0 (prompt_list (prompts S_prompt)) S_prompt =
     (Inr (4, \<lparr>m_start = 6, m_end = 8, m_groups = []\<rparr>),
      S0\<lparr>incoming := [], stdout := [''router> ''],
          auto_driver := generic_driver, response := Some ''router> '',
          buffer := ''router> '',
          os_guesser := [DataReceived ''router> '', ResponseReceived]\<rparr>)"
  by (simp add: S_prompt_def race_defs run_defs)

lemma run_prompt_flush:
  "u_app_authenticate E0 ''alice'' ''secret'' True S_prompt =
     Some (Inr (),
       S0\<lparr>incoming := [], stdout := [''router> ''],
           auto_driver := generic_driver, response := Some ''router> '',
           buffer := [],
           os_guesser := [DataReceived ''router> '', ResponseReceived, ResponseReceived]\<rparr>)"
  by (simp add: S_prompt_def u_app_authenticate.simps race_defs run_defs)

lemma run_login:
  "app_authenticate E0 (Some alice) False S_login =
     Some (Inr (),
       S0\<lparr>last_account := Some alice,
           sent := [''alice'' @ [CHR 0x0D], ''secret'' @ [CHR 0x0D]],
           incoming := [],
           stdout := [''Username:'', ''Password:'', ''router> ''],
           auto_driver := generic_driver, response := Some ''router> '',
           buffer := ''router> '',
           os_guesser :=
             [DataReceived ''Username:'', ResponseReceived, ResponseReceived,
              DataReceived ''Password:'', ResponseReceived, ResponseReceived,
              DataReceived ''router> '', ResponseReceived],
           app_authenticated := True\<rparr>)"
  by (simp add: S_login_def app_authenticate_def u_get_account_def account_fields
      u_app_authenticate.simps race_defs run_defs)

lemma run_cisco_wait:
  "u_waitfor E0 (prompt_list (prompts S_cisco)) S_cisco =
     (Inl DriverReplacedException,
      S0\<lparr>incoming := [Chunk ''router# ''], stdout := [''Cisco IOS''],
          os_guesser := [DataReceived ''Cisco IOS''],
          auto_driver := ios_driver, buffer := ''Cisco IOS'',
          cancel_requested := False, driver_replaced := False\<rparr>)"
  by (simp add: S_cisco_def race_defs run_defs)

lemma run_cisco_waitfor:
  "u_waitfor E0 [lit ''# ''] S_cisco =
     (Inl DriverReplacedException,
      S0\<lparr>incoming := [Chunk ''router# ''], stdout := [''Cisco IOS''],
          os_guesser := [DataReceived ''Cisco IOS''],
          auto_driver := ios_driver, buffer := ''Cisco IOS'',
          cancel_requested := False, driver_replaced := False\<rparr>)"
  by (simp add: S_cisco_def run_defs)

lemma run_cisco_race:
  "u_app_authenticate E0 ''alice'' ''secret'' False S_cisco =
     Some (Inr (),
       S0\<lparr>cancel_requested := False, driver_replaced := False,
           incoming := [], stdout := [''Cisco IOS'', ''router# ''],
           auto_driver := ios_driver,
           response := Some ''Cisco IOSrouter# '',
           buffer := ''Cisco IOSrouter# '',
           os_guesser :=
             [DataReceived ''Cisco IOS'', DataReceived ''router# '', ResponseReceived]\<rparr>)"
  by (simp add: S_cisco_def u_app_authenticate.simps race_defs run_defs)

lemma run_cancel:
  "fst (u_waitfor E0 [lit ''# ''] S_cancel) = Inl ExpectCancelledException"
  by (simp add: S_cancel_def run_defs)

lemma run_otp_wait:
  "u_waitfor E0 (prompt_list (prompts S_otp)) S_otp =
     (Inr (2, \<lparr>m_start = 0, m_end = 17, m_groups = [''87'', ''ke1234'']\<rparr>),
      S0\<lparr>incoming := [Chunk ''Password:'', Chunk ''router> ''],
          stdout := [''otp-md4 87 ke1234'' @ [CHR 0x0A]],
          auto_driver := generic_driver,
          response := Some ''otp-md4 87 ke1234'',
          buffer := challenge,
          os_guesser := [DataReceived challenge, ResponseReceived]\<rparr>)"
  by (simp add: S_otp_def challenge_def race_defs run_defs)

lemma run_otp_step:
  "app_authenticate_step E0 ''alice'' ''secret'' S_otp =
     (Inr Continue,
      S0\<lparr>incoming := [Chunk ''router> ''],
          stdout := [''otp-md4 87 ke1234'' @ [CHR 0x0A], ''Password:''],
          auto_driver := generic_driver,
          response := Some ([CHR 0x0D, CHR 0x0A] @ ''Password:''),
          buffer := [],
          os_guesser :=
            [DataReceived challenge, ResponseReceived, ResponseReceived,
             DataReceived ''Password:'', ResponseReceived],
          sent := [''secret/ke1234/87'' @ [CHR 0x0D]]\<rparr>)"
  by (simp add: S_otp_def challenge_def race_defs run_defs)

lemma run_login_full:
  "login E0 (Some alice) None True S_login =
     Some (Inr (),
       S0\<lparr>authenticated := True,
           sent := [''alice'' @ [CHR 0x0D], ''secret'' @ [CHR 0x0D]],
           incoming := [],
           stdout := [''Username:'', ''Password:'', ''router> ''],
           auto_driver := generic_driver, response := Some ''router> '',
           buffer := ''router> '',
           os_guesser :=
             [DataReceived ''Username:'', ResponseReceived, ResponseReceived,
              DataReceived ''Password:'', ResponseReceived, ResponseReceived,
              DataReceived ''router> '', ResponseReceived],
           app_authenticated := True, last_account := Some alice\<rparr>)"
  by (simp add: S_login_def login_def authenticate_def auto_app_authorize_def
      app_authenticate_def u_get_account_def account_fields
      u_app_authenticate.simps race_defs run_defs)

lemma run_silent_execute:
  "execute E0 ''show version'' S_silent =
     (Inl (TimeoutException ''Error while waiting for response from device''),
      S0\<lparr>sent := [''show version'' @ [CHR 0x0D]],
          incoming := [], stdout := [''Welcome''],
          os_guesser := [DataReceived ''Welcome''],
          auto_driver := generic_driver, buffer := ''Welcome'',
          response := Some ''Welcome''\<rparr>)"
  by (simp add: execute_def expect_prompt_eq S_silent_def run_defs)

lemma received_version: "received (incoming S_version) = reply_version"
  by (simp add: S_version_def reply_version_def S0_fields)

lemma run_cisco_u_expect:
  "u_expect E0 [lit ''> ''] S_cisco =
     (Inl DriverReplacedException,
      S0\<lparr>incoming := [Chunk ''router# ''], stdout := [''Cisco IOS''],
          os_guesser := [DataReceived ''Cisco IOS''],
          auto_driver := ios_driver, buffer := ''Cisco IOS'',
          cancel_requested := False, driver_replaced := False\<rparr>)"
  by (simp add: S_cisco_def run_defs)

subsection \<open>A pinned driver\<close>

text \<open>
  C10. While a manual driver is set, \<open>get_driver\<close> returns it before and after
  a received chunk has been given to the guesser, so \<open>_receive_cb\<close> does not
  call \<open>_driver_replaced_notify\<close>: the flag \<open>driver_replaced\<close> keeps its value,
  nothing is written to stderr, and a cancellation is requested only where one
  was pending or a subscriber of \<open>data_received_event\<close> asks for it.
\<close>

theorem pinned_driver_is_never_replaced:
  "manual_driver s = Some d \<Longrightarrow>
   get_driver s = d \<and>
   get_driver (snd (u_receive_cb E data s)) = d \<and>
   driver_replaced (snd (u_receive_cb E data s)) = driver_replaced s \<and>
   stderr (snd (u_receive_cb E data s)) = stderr s \<and>
   cancel_requested (snd (u_receive_cb E data s)) =
     (cancel_requested s \<or>
      list_ex (\<lambda>f. f (fst (u_receive_cb E data s))) (data_received_event s))"
  by (simp add: u_receive_cb_def Let_def get_driver_def fire_cancel_requested
      split: option.split)

text \<open>
  The host announces itself as Cisco: the guessed driver changes to \<open>ios\<close>, the
  pinned driver stays in use, and nothing is cancelled.
\<close>

theorem pinned_driver_is_never_replaced_witness:
  "manual_driver S_pinned = Some generic_driver \<and>
   auto_driver (snd (u_receive_cb E0 ''Cisco IOS'' S_pinned)) = ios_driver \<and>
   get_driver (snd (u_receive_cb E0 ''Cisco IOS'' S_pinned)) = generic_driver \<and>
   driver_replaced (snd (u_receive_cb E0 ''Cisco IOS'' S_pinned)) = False \<and>
   cancel_requested (snd (u_receive_cb E0 ''Cisco IOS'' S_pinned)) = False"
proof -
  have p: "manual_driver S_pinned = Some generic_driver"
    by (simp add: S_pinned_def set_driver_def)
  have q: "driver_replaced S_pinned = False" "cancel_requested S_pinned = False"
    "data_received_event S_pinned = []"
    by (simp_all add: S_pinned_def set_driver_def S0_def)
  have a: "auto_driver (snd (u_receive_cb E0 ''Cisco IOS'' S_pinned)) = ios_driver"
    by (simp add: S_pinned_def set_driver_def run_defs)
  show ?thesis
    using pinned_driver_is_never_replaced [OF p, of E0 "''Cisco IOS''"] p q a
    by simp
qed

subsection \<open>Error lines in the response to a command\<close>

text \<open>
  C1, at an input where the source departs from it. The host answers
  \<open>show foo\<close> with the echo, the line \<open>% Invalid input\<close> and the prompt; the
  error pattern of the driver matches the second line; \<open>execute\<close> returns
  without an exception. The inner loop of \<open>expect_prompt\<close> never assigns
  \<open>match\<close>, so \<open>if match is None: continue\<close> skips the \<open>raise\<close> for every line.
\<close>

theorem execute_passes_error_line:
  "get_error_prompt S_invalid = [lit ''% Invalid''] \<and>
   split_str reply_invalid (CHR 0x0A) =
     [''show foo'' @ [CHR 0x0D], ''% Invalid input'' @ [CHR 0x0D], ''router> ''] \<and>
   re_match (lit ''% Invalid'') (''% Invalid input'' @ [CHR 0x0D]) \<noteq> None \<and>
   fst (execute E0 ''show foo'' S_invalid) = Inr PyNone \<and>
   response (snd (execute E0 ''show foo'' S_invalid)) = Some reply_invalid"
  by (simp add: run_invalid)
    (simp add: S_invalid_def reply_invalid_def run_defs)

subsection \<open>login\<close>

text \<open>
  C2. For every account and app account, \<open>login\<close> resolves the account (the
  app account is the account when it is \<open>None\<close>) and then runs
  \<open>authenticate(account, flush = False)\<close>,
  \<open>app_authenticate(app_account, flush = False)\<close> and
  \<open>auto_app_authorize(app_account, flush = flush)\<close>, in that order, each on
  the state the one before has left; an exception of one step ends the call.
\<close>

theorem login_runs_the_fixed_pipeline:
  "login E account app_account flush s = login_pipeline E account app_account flush s"
  by (simp add: login_def login_pipeline_def and_then_def Let_def
      split: prod.splits sum.splits option.splits)

text \<open>
  A host that asks for a user name and a password and then shows its prompt:
  the pipeline sends the name, then the password, and leaves both
  authentication flags set.
\<close>

theorem login_runs_the_fixed_pipeline_witness:
  "map_option (\<lambda>r. (fst r, sent (snd r), authenticated (snd r), app_authenticated (snd r),
                    last_account (snd r)))
     (login_pipeline E0 (Some alice) None True S_login) =
   Some (Inr (), [''alice'' @ [CHR 0x0D], ''secret'' @ [CHR 0x0D]], True, True, Some alice)"
  unfolding login_runs_the_fixed_pipeline [symmetric] run_login_full
  by simp

subsection \<open>A replaced driver\<close>

text \<open>
  C3, as the source has it. \<open>waitfor\<close>, \<open>expect\<close> and the loop of
  \<open>_app_authenticate\<close> never end with DriverReplacedException. When the wait inside ends with it, \<open>waitfor\<close> and
  \<open>expect\<close> wait again for the prompt they were given, from the state the
  failed wait has left, and \<open>_app_authenticate\<close> starts its next turn there,
  which builds its prompt list anew from the getters. Every other exception of
  the wait inside ends the call: \<open>waitfor\<close> and \<open>expect\<close> pass it on as it is;
  \<open>_app_authenticate\<close> passes on ExpectCancelledException and EOFError, raises
  a TimeoutException of its own for a timeout, and raises LoginFailure when a
  login-error pattern has matched.
\<close>

theorem driver_replaced_is_retried:
  "fst (waitfor E prompt s) \<noteq> Inl DriverReplacedException \<and>
   fst (expect E prompt s) \<noteq> Inl DriverReplacedException \<and>
   (\<forall>r. u_app_authenticate E user password flush s = Some r \<longrightarrow>
      fst r \<noteq> Inl DriverReplacedException) \<and>
   (\<forall>s1. u_waitfor E prompt s = (Inl DriverReplacedException, s1) \<longrightarrow>
      waitfor E prompt s = waitfor E prompt s1) \<and>
   (\<forall>s1. u_expect E prompt s = (Inl DriverReplacedException, s1) \<longrightarrow>
      expect E prompt s = expect E prompt s1) \<and>
   (\<forall>s1. u_waitfor E (prompt_list (prompts s)) s = (Inl DriverReplacedException, s1) \<longrightarrow>
      u_app_authenticate E user password flush s =
      u_app_authenticate E user password flush
        (u_dbg 1 ''Transport.app_authenticate(): driver replaced'' s1)) \<and>
   (\<forall>e s1. u_waitfor E prompt s = (Inl e, s1) \<and> e \<noteq> DriverReplacedException \<longrightarrow>
      waitfor E prompt s = (Inl e, s1)) \<and>
   (\<forall>e s1. u_expect E prompt s = (Inl e, s1) \<and> e \<noteq> DriverReplacedException \<longrightarrow>
      expect E prompt s = (Inl e, s1)) \<and>
   (\<forall>msg s1. u_waitfor E (prompt_list (prompts s)) s = (Inl (TimeoutException msg), s1) \<longrightarrow>
      (\<exists>msg'. u_app_authenticate E user password flush s =
         Some (Inl (TimeoutException msg'), s1))) \<and>
   (\<forall>s1. u_waitfor E (prompt_list (prompts s)) s = (Inl ExpectCancelledException, s1) \<longrightarrow>
      u_app_authenticate E user password flush s =
        Some (Inl ExpectCancelledException,
              u_dbg 1 ''Transport.app_authenticate(): expect cancelled'' s1)) \<and>
   (\<forall>s1. u_waitfor E (prompt_list (prompts s)) s = (Inl EOFError, s1) \<longrightarrow>
      u_app_authenticate E user password flush s =
        Some (Inl EOFError, u_dbg 1 ''Transport.app_authenticate(): EOF'' s1)) \<and>
   (\<forall>i m s1. u_waitfor E (prompt_list (prompts s)) s = (Inr (i, m), s1) \<and>
        fst (prompt_map (prompts s) ! i) = ''login-error'' \<longrightarrow>
      u_app_authenticate E user password flush s =
        Some (Inl (LoginFailure ''Login failed''), s1))"
proof -
  have login: "u_app_authenticate E user password flush s =
        Some (Inl (LoginFailure ''Login failed''), s1)"
    if w: "u_waitfor E (prompt_list (prompts s)) s = (Inr (i, m), s1)"
      and l: "fst (prompt_map (prompts s) ! i) = ''login-error''" for i m s1
  proof -
    obtain sec prompt where pm: "prompt_map (prompts s) ! i = (sec, prompt)"
      by (cases "prompt_map (prompts s) ! i")
    with l have sec: "sec = ''login-error''" by simp
    show ?thesis
      by (simp add: u_app_authenticate.simps [of E user password flush s]
          step_section [OF w pm] sec)
  qed
  have timeout: "\<exists>msg'. u_app_authenticate E user password flush s =
         Some (Inl (TimeoutException msg'), s1)"
    if w: "u_waitfor E (prompt_list (prompts s)) s = (Inl (TimeoutException msg), s1)"
    for msg s1
    using step_timeout [OF w, of user password]
    by (simp add: u_app_authenticate.simps [of E user password flush s])
  show ?thesis
    using waitfor_not_replaced [of E prompt s] expect_not_replaced [of E prompt s]
      u_app_authenticate_not_replaced [of E user password flush s] login timeout
    by (auto simp add: waitfor.simps [of E prompt s] expect.simps [of E prompt s]
        u_app_authenticate.simps [of E user password flush s]
        step_replaced step_cancelled step_eof)
qed

text \<open>
  The host announces itself as Cisco and then shows \<open>router#\<close>. The first wait
  ends with DriverReplacedException; \<open>waitfor\<close> and the race go on and match
  the prompt of the \<open>ios\<close> driver, which the driver in use at the start does
  not have. At the other host a subscriber cancels the wait, and \<open>waitfor\<close>
  ends with ExpectCancelledException.
\<close>

theorem driver_replaced_is_retried_witness:
  "get_prompt S_cisco = [lit ''> ''] \<and>
   fst (u_waitfor E0 [lit ''# ''] S_cisco) = Inl DriverReplacedException \<and>
   fst (waitfor E0 [lit ''# ''] S_cisco) =
     Inr (0, \<lparr>m_start = 15, m_end = 17, m_groups = []\<rparr>) \<and>
   fst (u_waitfor E0 (prompt_list (prompts S_cisco)) S_cisco) = Inl DriverReplacedException \<and>
   map_option fst (u_app_authenticate E0 ''alice'' ''secret'' False S_cisco) = Some (Inr ()) \<and>
   map_option (get_prompt \<circ> snd) (u_app_authenticate E0 ''alice'' ''secret'' False S_cisco) =
     Some [lit ''# ''] \<and>
   fst (u_waitfor E0 [lit ''# ''] S_cancel) = Inl ExpectCancelledException \<and>
   fst (waitfor E0 [lit ''# ''] S_cancel) = Inl ExpectCancelledException"
proof -
  have w: "fst (waitfor E0 [lit ''# ''] S_cisco) =
     Inr (0, \<lparr>m_start = 15, m_end = 17, m_groups = []\<rparr>)"
    by (simp add: S_cisco_def run_defs)
  obtain s1 where c: "u_waitfor E0 [lit ''# ''] S_cancel = (Inl ExpectCancelledException, s1)"
    using run_cancel by (cases "u_waitfor E0 [lit ''# ''] S_cancel") simp
  have g: "get_prompt S_cisco = [lit ''> '']"
    by (simp add: S_cisco_def run_defs)
  from driver_replaced_is_retried [of E0 "[lit ''# '']" S_cancel "''alice''" "''secret''" False] c
  have "waitfor E0 [lit ''# ''] S_cancel = (Inl ExpectCancelledException, s1)" by simp
  with w c g show ?thesis
    by (simp add: run_cisco_wait run_cisco_waitfor run_cisco_race get_prompt_def truthy_def
        get_driver_def S0_fields driver_fields)
qed

text \<open>
  C3 as it is stated does not hold: \<open>waitfor\<close> and \<open>expect\<close> do not resolve
  their patterns anew. The caller has resolved \<open>get_prompt()\<close> with the driver
  in use before the wait, as \<open>expect_prompt\<close> does. The host announces itself
  as Cisco, the driver is replaced and the wait inside ends with
  DriverReplacedException; from then on \<open>get_prompt()\<close> is the prompt of the
  \<open>ios\<close> driver. \<open>expect\<close> and \<open>waitfor\<close> wait again for the prompt of
  before and time out with \<open>router#\<close> in the buffer, and so does
  \<open>expect_prompt\<close>; a wait for the prompt resolved anew, from the state the
  failed wait has left, matches.
\<close>

theorem retry_keeps_the_prompt_counterexample:
  "get_prompt S_cisco = [lit ''> ''] \<and>
   fst (u_expect E0 (get_prompt S_cisco) S_cisco) = Inl DriverReplacedException \<and>
   get_prompt (snd (u_expect E0 (get_prompt S_cisco) S_cisco)) = [lit ''# ''] \<and>
   fst (expect E0 (get_prompt S_cisco) S_cisco) =
     Inl (TimeoutException ''Error while waiting for response from device'') \<and>
   buffer (snd (expect E0 (get_prompt S_cisco) S_cisco)) = ''Cisco IOSrouter# '' \<and>
   get_prompt (snd (expect E0 (get_prompt S_cisco) S_cisco)) = [lit ''# ''] \<and>
   fst (expect E0 (get_prompt (snd (u_expect E0 (get_prompt S_cisco) S_cisco)))
          (snd (u_expect E0 (get_prompt S_cisco) S_cisco))) =
     Inr (0, \<lparr>m_start = 15, m_end = 17, m_groups = []\<rparr>) \<and>
   fst (u_waitfor E0 (get_prompt S_cisco) S_cisco) = Inl DriverReplacedException \<and>
   fst (waitfor E0 (get_prompt S_cisco) S_cisco) =
     Inl (TimeoutException ''Error while waiting for response from device'') \<and>
   fst (expect_prompt E0 S_cisco) =
     Inl (TimeoutException ''Error while waiting for response from device'')"
proof -
  have g: "get_prompt S_cisco = [lit ''> '']"
    by (simp add: S_cisco_def run_defs)
  have e: "fst (expect E0 [lit ''> ''] S_cisco) =
       Inl (TimeoutException ''Error while waiting for response from device'')"
    "buffer (snd (expect E0 [lit ''> ''] S_cisco)) = ''Cisco IOSrouter# ''"
    "get_prompt (snd (expect E0 [lit ''> ''] S_cisco)) = [lit ''# '']"
    by (simp_all add: S_cisco_def run_defs)
  have w: "fst (u_waitfor E0 [lit ''> ''] S_cisco) = Inl DriverReplacedException"
    "fst (waitfor E0 [lit ''> ''] S_cisco) =
       Inl (TimeoutException ''Error while waiting for response from device'')"
    by (simp_all add: S_cisco_def run_defs)
  have p: "fst (expect_prompt E0 S_cisco) =
     Inl (TimeoutException ''Error while waiting for response from device'')"
    by (simp add: expect_prompt_eq S_cisco_def run_defs)
  have f: "fst (expect E0 [lit ''# '']
      (S0\<lparr>incoming := [Chunk ''router# ''], stdout := [''Cisco IOS''],
          os_guesser := [DataReceived ''Cisco IOS''],
          auto_driver := ios_driver, buffer := ''Cisco IOS'',
          cancel_requested := False, driver_replaced := False\<rparr>)) =
     Inr (0, \<lparr>m_start = 15, m_end = 17, m_groups = []\<rparr>)"
    "get_prompt (S0\<lparr>incoming := [Chunk ''router# ''], stdout := [''Cisco IOS''],
          os_guesser := [DataReceived ''Cisco IOS''],
          auto_driver := ios_driver, buffer := ''Cisco IOS'',
          cancel_requested := False, driver_replaced := False\<rparr>) = [lit ''# '']"
    by (simp_all add: run_defs)
  show ?thesis
    unfolding g run_cisco_u_expect
    by (simp add: e w p f del: One_nat_def)
qed

subsection \<open>execute\<close>

text \<open>
  C4, as the source has it. \<open>execute(command)\<close> is: send the command followed
  by a carriage return, then \<open>expect_prompt\<close>. Whatever the outcome of the
  wait, the call has sent exactly that, after what had been sent before. When it
  returns, what it returns is \<open>None\<close> (the value of \<open>expect_prompt\<close>, which
  has no \<open>return\<close>); the buffer of before the call, followed by the part
  \<open>rest\<close> of what the host sent that the wait has received, holds a match of
  the first prompt that matches; the text through the end of that match is in
  \<open>self.response\<close> and is removed from the buffer, and what is still to come
  from the host is what it sent less \<open>rest\<close>.
\<close>

theorem execute_sends_and_stores_response:
  "execute E command s = expect_prompt E (send (command @ [CHR 0x0D]) s) \<and>
   sent (snd (execute E command s)) = sent s @ [command @ [CHR 0x0D]] \<and>
   (\<forall>v. fst (execute E command s) = Inr v \<longrightarrow>
      v = PyNone \<and>
      (\<exists>i m rest.
         rest @ received (incoming (snd (execute E command s))) = received (incoming s) \<and>
         first_match (get_prompt s) (buffer s @ rest) = Some (i, m) \<and>
         response (snd (execute E command s)) = Some (take (m_end m) (buffer s @ rest)) \<and>
         buffer (snd (execute E command s)) = drop (m_end m) (buffer s @ rest)))"
proof -
  let ?s0 = "send (command @ [CHR 0x0D]) s"
  have x: "execute E command s = expect_prompt E ?s0"
    by (simp add: execute_def Let_def)
  have p: "get_prompt ?s0 = get_prompt s" "buffer ?s0 = buffer s"
    "sent ?s0 = sent s @ [command @ [CHR 0x0D]]" "incoming ?s0 = incoming s"
    by (simp_all add: get_prompt_def get_driver_def send_def split: option.split)
  have a: "sent (snd (execute E command s)) = sent s @ [command @ [CHR 0x0D]]"
    unfolding x using expect_prompt_sent [of E ?s0] by (simp add: p)
  have b: "v = PyNone \<and>
      (\<exists>i m rest.
         rest @ received (incoming (snd (execute E command s))) = received (incoming s) \<and>
         first_match (get_prompt s) (buffer s @ rest) = Some (i, m) \<and>
         response (snd (execute E command s)) = Some (take (m_end m) (buffer s @ rest)) \<and>
         buffer (snd (execute E command s)) = drop (m_end m) (buffer s @ rest))"
    if h: "fst (execute E command s) = Inr v" for v
  proof -
    obtain s1 where e: "expect_prompt E ?s0 = (Inr v, s1)"
      using h unfolding x by (cases "expect_prompt E ?s0") simp
    from expect_prompt_consumes [OF e] have "v = PyNone" by simp
    moreover from expect_prompt_stream [OF e] have
      "\<exists>i m rest.
         rest @ received (incoming s1) = received (incoming s) \<and>
         first_match (get_prompt s) (buffer s @ rest) = Some (i, m) \<and>
         response s1 = Some (take (m_end m) (buffer s @ rest)) \<and>
         buffer s1 = drop (m_end m) (buffer s @ rest)"
      unfolding p .
    ultimately show ?thesis unfolding x e by simp
  qed
  from x a b show ?thesis by blast
qed

text \<open>
  The theorem at a host that answers \<open>show version\<close>, and at a host that
  says \<open>Welcome\<close> and then nothing: there the wait times out, and the command
  has been sent all the same.
\<close>

theorem execute_sends_and_stores_response_witness:
  "fst (execute E0 ''show version'' S_version) = Inr PyNone \<and>
   received (incoming S_version) = reply_version \<and>
   incoming (snd (execute E0 ''show version'' S_version)) = [] \<and>
   sent (snd (execute E0 ''show version'' S_version)) = [''show version'' @ [CHR 0x0D]] \<and>
   response (snd (execute E0 ''show version'' S_version)) = Some reply_version \<and>
   buffer (snd (execute E0 ''show version'' S_version)) = [] \<and>
   fst (execute E0 ''show version'' S_silent) =
     Inl (TimeoutException ''Error while waiting for response from device'') \<and>
   sent (snd (execute E0 ''show version'' S_silent)) = [''show version'' @ [CHR 0x0D]]"
proof -
  note t = execute_sends_and_stores_response [of E0 "''show version''" S_version]
  have r: "fst (execute E0 ''show version'' S_version) = Inr PyNone"
    "incoming (snd (execute E0 ''show version'' S_version)) = []"
    "sent (snd (execute E0 ''show version'' S_version)) = [''show version'' @ [CHR 0x0D]]"
    "response (snd (execute E0 ''show version'' S_version)) = Some reply_version"
    "buffer (snd (execute E0 ''show version'' S_version)) = []"
    "fst (execute E0 ''show version'' S_silent) =
       Inl (TimeoutException ''Error while waiting for response from device'')"
    "sent (snd (execute E0 ''show version'' S_silent)) = [''show version'' @ [CHR 0x0D]]"
    by (simp_all add: run_version run_silent_execute)
  from t r received_version show ?thesis by blast
qed

text \<open>
  C4 as it is stated does not hold: \<open>execute\<close> returns \<open>None\<close>, not the
  response text, which is to be read from \<open>self.response\<close>.
\<close>

theorem execute_returns_none_counterexample:
  "fst (execute E0 ''show version'' S_version) = Inr PyNone \<and>
   response (snd (execute E0 ''show version'' S_version)) = Some reply_version \<and>
   fst (execute E0 ''show version'' S_version) \<noteq> Inr (PyStr reply_version)"
  by (simp add: run_version)

subsection \<open>The one-time password\<close>

text \<open>
  C5. When the race matches in the section \<open>skey\<close>, the pattern is \<open>_skey_re\<close>
  and its two groups are the decimal sequence number and the seed.
  \<open>expect(prompt)\<close> removes the challenge from the buffer through the end of
  the match, and nothing has been sent yet. Then the password prompt is waited
  for and removed; if that wait fails, its exception ends the call with nothing
  sent; if it succeeds, \<open>otp(password, seed, seq)\<close> followed by a carriage
  return is sent, and the loop goes on from there.
\<close>

theorem skey_challenge_is_answered:
  assumes w: "u_waitfor E (prompt_list (prompts s)) s = (Inr (i, m), s1)"
    and sk: "fst (prompt_map (prompts s) ! i) = ''skey''"
  shows "\<exists>ds seed seq.
    snd (prompt_map (prompts s) ! i) = u_skey_re \<and>
    m_groups m = [ds, seed] \<and> py_int ds = Inr seq \<and>
    (let s2 = u_dbg 1 ''S/Key prompt received.'' s1;
         s3 = s2\<lparr>response := Some (take (m_end m) (buffer s1)),
                 buffer := drop (m_end m) (buffer s1),
                 os_guesser := os_guesser s1 @ [ResponseReceived]\<rparr>;
         s5 = u_dbg 2 (''Seq: '' @ str_int seq @ '', Seed: '' @ seed) (u_otp_cb seq seed s3);
         answer = otp E password seed seq @ [CHR 0x0D]
     in expect E [u_skey_re] s2 = (Inr (0, m), s3) \<and> sent s5 = sent s \<and>
        (\<forall>e s6. expect E (get_password_prompt s5) s5 = (Inl e, s6) \<longrightarrow>
           app_authenticate_step E user password s = (Inl e, s6) \<and> sent s6 = sent s) \<and>
        (\<forall>r s6. expect E (get_password_prompt s5) s5 = (Inr r, s6) \<longrightarrow>
           app_authenticate_step E user password s =
             (Inr Continue, u_dbg 1 ''Password sent.'' (send answer s6)) \<and>
           sent (u_dbg 1 ''Password sent.'' (send answer s6)) = sent s @ [answer] \<and>
           (\<exists>j m' rest.
              first_match (get_password_prompt s5) (buffer s5 @ rest) = Some (j, m') \<and>
              buffer s6 = drop (m_end m') (buffer s5 @ rest)) \<and>
           u_app_authenticate E user password flush s =
             u_app_authenticate E user password flush
               (u_dbg 1 ''Password sent.'' (send answer s6))))"
proof -
  obtain sec prompt where pm: "prompt_map (prompts s) ! i = (sec, prompt)"
    by (cases "prompt_map (prompts s) ! i")
  with sk have sec: "sec = ''skey''" by simp
  from race_match [OF w] have rm:
    "prompt_map (prompts s) ! i \<in> set (prompt_map (prompts s))"
    "re_search (snd (prompt_map (prompts s) ! i)) (buffer s1) = Some m"
    "sent s1 = sent s"
    by simp_all
  from rm(1) pm sec prompt_map_sections [of sec prompt s]
  have prompt: "prompt = u_skey_re" by simp
  with rm(2) pm have r: "re_search u_skey_re (buffer s1) = Some m" by simp
  from skey_groups [OF r] obtain ds seed seq where g: "m_groups m = [ds, seed]"
    "group m 1 = Inr ds" "py_int ds = Inr seq" "group m 2 = Inr seed" by blast
  define s2 where "s2 = u_dbg 1 ''S/Key prompt received.'' s1"
  define s3 where "s3 = s2\<lparr>response := Some (take (m_end m) (buffer s1)),
                 buffer := drop (m_end m) (buffer s1),
                 os_guesser := os_guesser s1 @ [ResponseReceived]\<rparr>"
  define s5 where
    "s5 = u_dbg 2 (''Seq: '' @ str_int seq @ '', Seed: '' @ seed) (u_otp_cb seq seed s3)"
  define answer where "answer = otp E password seed seq @ [CHR 0x0D]"
  have b2: "buffer s2 = buffer s1" "os_guesser s2 = os_guesser s1"
    by (simp_all add: s2_def u_dbg_def)
  have e1: "expect E [u_skey_re] s2 = (Inr (0, m), s3)"
    using expect_immediate [of "[u_skey_re]" s2 0 m E] first_match_single [OF r]
    by (simp add: b2 s3_def)
  have st: "app_authenticate_step E user password s =
      (case expect E (get_password_prompt s5) s5 of
         (Inl e, s6) \<Rightarrow> (Inl e, s6)
       | (Inr x, s6) \<Rightarrow> (Inr Continue, u_dbg 1 ''Password sent.'' (send answer s6)))"
    unfolding step_section [OF w pm] sec prompt s5_def answer_def
    using skey_section_eq [OF e1 [unfolded s2_def] g(2,3,4), of password]
    by simp
  have sent5: "sent s5 = sent s"
    by (simp add: s5_def u_otp_cb_def s3_def s2_def rm(3))
  have fl: "app_authenticate_step E user password s = (Inl e, s6) \<and> sent s6 = sent s"
    if "expect E (get_password_prompt s5) s5 = (Inl e, s6)" for e s6
    using that expect_fail [OF that] sent5 by (simp add: st grows_def)
  have ok: "app_authenticate_step E user password s =
             (Inr Continue, u_dbg 1 ''Password sent.'' (send answer s6)) \<and>
           sent (u_dbg 1 ''Password sent.'' (send answer s6)) = sent s @ [answer] \<and>
           (\<exists>j m' rest.
              first_match (get_password_prompt s5) (buffer s5 @ rest) = Some (j, m') \<and>
              buffer s6 = drop (m_end m') (buffer s5 @ rest)) \<and>
           u_app_authenticate E user password flush s =
             u_app_authenticate E user password flush
               (u_dbg 1 ''Password sent.'' (send answer s6))"
    if x: "expect E (get_password_prompt s5) s5 = (Inr q, s6)" for q s6
  proof -
    obtain j m' where q: "q = (j, m')" by (cases q)
    from expect_consumes [OF x [unfolded q]] sent5 have
      "sent s6 = sent s"
      "\<exists>rest. first_match (get_password_prompt s5) (buffer s5 @ rest) = Some (j, m') \<and>
          buffer s6 = drop (m_end m') (buffer s5 @ rest)"
      by auto
    moreover have "app_authenticate_step E user password s =
             (Inr Continue, u_dbg 1 ''Password sent.'' (send answer s6))"
      by (simp add: st x)
    ultimately show ?thesis
      by (auto simp add: u_app_authenticate.simps [of E user password flush s] send_def)
  qed
  have "snd (prompt_map (prompts s) ! i) = u_skey_re" using pm prompt by simp
  moreover note g(1,3) e1 sent5 fl ok
  ultimately have "snd (prompt_map (prompts s) ! i) = u_skey_re \<and>
    m_groups m = [ds, seed] \<and> py_int ds = Inr seq \<and>
    (expect E [u_skey_re] s2 = (Inr (0, m), s3) \<and> sent s5 = sent s \<and>
        (\<forall>e s6. expect E (get_password_prompt s5) s5 = (Inl e, s6) \<longrightarrow>
           app_authenticate_step E user password s = (Inl e, s6) \<and> sent s6 = sent s) \<and>
        (\<forall>r s6. expect E (get_password_prompt s5) s5 = (Inr r, s6) \<longrightarrow>
           app_authenticate_step E user password s =
             (Inr Continue, u_dbg 1 ''Password sent.'' (send answer s6)) \<and>
           sent (u_dbg 1 ''Password sent.'' (send answer s6)) = sent s @ [answer] \<and>
           (\<exists>j m' rest.
              first_match (get_password_prompt s5) (buffer s5 @ rest) = Some (j, m') \<and>
              buffer s6 = drop (m_end m') (buffer s5 @ rest)) \<and>
           u_app_authenticate E user password flush s =
             u_app_authenticate E user password flush
               (u_dbg 1 ''Password sent.'' (send answer s6))))"
    by blast
  then show ?thesis
    unfolding Let_def s2_def s3_def s5_def answer_def
    by (intro exI [of _ ds] exI [of _ seed] exI [of _ seq])
qed

text \<open>
  The host sends \<open>otp-md4 87 ke1234\<close> and then \<open>Password:\<close>; the answer
  computed from the password, the seed \<open>ke1234\<close> and the number 87 is sent
  after both have been removed from the buffer.
\<close>

theorem skey_challenge_is_answered_witness:
  "fst (u_waitfor E0 (prompt_list (prompts S_otp)) S_otp) =
     Inr (2, \<lparr>m_start = 0, m_end = 17, m_groups = [''87'', ''ke1234'']\<rparr>) \<and>
   prompt_map (prompts S_otp) ! 2 = (''skey'', u_skey_re) \<and>
   py_int ''87'' = Inr 87 \<and>
   otp E0 ''secret'' ''ke1234'' 87 = ''secret/ke1234/87'' \<and>
   fst (app_authenticate_step E0 ''alice'' ''secret'' S_otp) = Inr Continue \<and>
   sent (snd (app_authenticate_step E0 ''alice'' ''secret'' S_otp)) =
     [''secret/ke1234/87'' @ [CHR 0x0D]] \<and>
   buffer (snd (app_authenticate_step E0 ''alice'' ''secret'' S_otp)) = [] \<and>
   incoming (snd (app_authenticate_step E0 ''alice'' ''secret'' S_otp)) = [Chunk ''router> '']"
proof -
  have c: "prompt_map (prompts S_otp) ! 2 = (''skey'', u_skey_re)"
    by (simp add: S_otp_def prompts_def prompt_map_def run_defs)
  then have "fst (prompt_map (prompts S_otp) ! 2) = ''skey''" by simp
  note t = skey_challenge_is_answered [OF run_otp_wait this, of "''secret''" "''alice''" False]
  have r: "fst (u_waitfor E0 (prompt_list (prompts S_otp)) S_otp) =
     Inr (2, \<lparr>m_start = 0, m_end = 17, m_groups = [''87'', ''ke1234'']\<rparr>) \<and>
   prompt_map (prompts S_otp) ! 2 = (''skey'', u_skey_re) \<and>
   py_int ''87'' = Inr 87 \<and>
   otp E0 ''secret'' ''ke1234'' 87 = ''secret/ke1234/87'' \<and>
   fst (app_authenticate_step E0 ''alice'' ''secret'' S_otp) = Inr Continue \<and>
   sent (snd (app_authenticate_step E0 ''alice'' ''secret'' S_otp)) =
     [''secret/ke1234/87'' @ [CHR 0x0D]] \<and>
   buffer (snd (app_authenticate_step E0 ''alice'' ''secret'' S_otp)) = [] \<and>
   incoming (snd (app_authenticate_step E0 ''alice'' ''secret'' S_otp)) = [Chunk ''router> '']"
    by (simp add: c run_otp_wait run_otp_step py_int_def digits_value_def is_digit_def
        E0_fields str_int_def digit_char_def)
  from t r show ?thesis by blast
qed

subsection \<open>Protocol level authentication\<close>

text \<open>
  C6. \<open>authenticate(account, flush)\<close> logs in with the key when the account has
  one and with the password otherwise. An exception of the login is passed on.
  After the login \<open>authenticated\<close> is set; without \<open>flush\<close> that is all, and
  nothing is read from the host; with \<open>flush\<close> one prompt is waited for and
  removed from the buffer by \<open>expect_prompt\<close>.
\<close>

theorem authenticate_by_key_or_password:
  assumes "u_get_account account s = (Inr a, s1)"
  shows
   "(let user = get_name a;
         r = (case get_key a of
                None \<Rightarrow> u_protocol_authenticate E user (get_password a)
                         (u_dbg 1 (''Attempting to authenticate '' @ user @ ''.'') s1)
              | Some k \<Rightarrow> u_protocol_authenticate_by_key E user k
                         (u_dbg 1 (''Authenticate '' @ user @ '' with key.'') s1))
     in (\<forall>e s2. r = (Inl e, s2) \<longrightarrow> authenticate E account flush s = (Inl e, s2)) \<and>
        (\<forall>s2. r = (Inr (), s2) \<longrightarrow>
           (\<not> flush \<longrightarrow>
              authenticate E account flush s = (Inr (), s2\<lparr>authenticated := True\<rparr>)) \<and>
           (flush \<longrightarrow>
              (\<forall>e s3. expect_prompt E (s2\<lparr>authenticated := True\<rparr>) = (Inl e, s3) \<longrightarrow>
                 authenticate E account flush s = (Inl e, s3)) \<and>
              (\<forall>v s3. expect_prompt E (s2\<lparr>authenticated := True\<rparr>) = (Inr v, s3) \<longrightarrow>
                 authenticate E account flush s = (Inr (), s3) \<and> authenticated s3 \<and>
                 (\<exists>i m rest. first_match (get_prompt s2) (buffer s2 @ rest) = Some (i, m) \<and>
                    buffer s3 = drop (m_end m) (buffer s2 @ rest))))))"
proof -
  have k: "\<And>s2 v s3. expect_prompt E (s2\<lparr>authenticated := True\<rparr>) = (Inr v, s3) \<Longrightarrow>
     authenticated s3 \<and>
     (\<exists>i m rest. first_match (get_prompt s2) (buffer s2 @ rest) = Some (i, m) \<and>
        buffer s3 = drop (m_end m) (buffer s2 @ rest))"
  proof -
    fix s2 v s3
    assume e: "expect_prompt E (s2\<lparr>authenticated := True\<rparr>) = (Inr v, s3)"
    have p: "get_prompt (s2\<lparr>authenticated := True\<rparr>) = get_prompt s2"
      by (simp add: get_prompt_def get_driver_def split: option.split)
    have q: "buffer (s2\<lparr>authenticated := True\<rparr>) = buffer s2"
      "authenticated (s2\<lparr>authenticated := True\<rparr>) = True" by simp_all
    from expect_prompt_consumes [OF e]
    have "authenticated s3 = True"
      and "\<exists>i m rest. first_match (get_prompt s2) (buffer s2 @ rest) = Some (i, m) \<and>
            response s3 = Some (take (m_end m) (buffer s2 @ rest)) \<and>
            buffer s3 = drop (m_end m) (buffer s2 @ rest)"
      unfolding p q by blast+
    then show "authenticated s3 \<and>
     (\<exists>i m rest. first_match (get_prompt s2) (buffer s2 @ rest) = Some (i, m) \<and>
        buffer s3 = drop (m_end m) (buffer s2 @ rest))"
      by blast
  qed
  show ?thesis
    using assms k
    by (auto simp add: authenticate_def Let_def split: option.splits)
qed


text \<open>The theorem at an account with a key, without \<open>flush\<close>, and at an account
  without a key, with \<open>flush\<close>.\<close>

theorem authenticate_by_key_or_password_witness:
  "u_get_account (Some alice_key) S0 = (Inr alice_key, S0\<lparr>last_account := Some alice_key\<rparr>) \<and>
   fst (authenticate E_ssh (Some alice_key) False S0) = Inr () \<and>
   sent (snd (authenticate E_ssh (Some alice_key) False S0)) = [''key id_rsa''] \<and>
   authenticated (snd (authenticate E_ssh (Some alice_key) False S0)) \<and>
   incoming (snd (authenticate E_ssh (Some alice_key) False S0)) = [] \<and>
   u_get_account (Some alice) S_prompt = (Inr alice, S_prompt\<lparr>last_account := Some alice\<rparr>) \<and>
   fst (authenticate E_ssh (Some alice) True S_prompt) = Inr () \<and>
   sent (snd (authenticate E_ssh (Some alice) True S_prompt)) = [''password secret''] \<and>
   authenticated (snd (authenticate E_ssh (Some alice) True S_prompt)) \<and>
   response (snd (authenticate E_ssh (Some alice) True S_prompt)) = Some ''router> '' \<and>
   buffer (snd (authenticate E_ssh (Some alice) True S_prompt)) = []"
proof -
  have k: "u_get_account (Some alice_key) S0 = (Inr alice_key, S0\<lparr>last_account := Some alice_key\<rparr>)"
    by (simp add: u_get_account_def)
  have p: "u_get_account (Some alice) S_prompt = (Inr alice, S_prompt\<lparr>last_account := Some alice\<rparr>)"
    by (simp add: u_get_account_def)
  show ?thesis
    using authenticate_by_key_or_password [OF k, of E_ssh False]
      authenticate_by_key_or_password [OF p, of E_ssh True] k p
    by (simp add: run_authenticate_key run_authenticate_password S0_fields)
qed

subsection \<open>The prompt at the end of the race\<close>

text \<open>
  C7. When the race matches in the section \<open>cli\<close>, the pattern is one of
  \<open>get_prompt()\<close> and the wait has removed nothing: the buffer is the one the
  wait started with, with what was received appended, and the pattern still
  matches in it. Without \<open>flush\<close> the call returns there. With \<open>flush\<close> it
  calls \<open>expect_prompt\<close> once, whose outcome is the outcome of the call, and
  which on success has removed the buffer through the end of a prompt.
\<close>

theorem cli_prompt_is_left_unless_flush:
  assumes "u_waitfor E (prompt_list (prompts s)) s = (Inr (i, m), s1)"
    and "fst (prompt_map (prompts s) ! i) = ''cli''"
  shows "snd (prompt_map (prompts s) ! i) \<in> set (get_prompt s) \<and>
     re_search (snd (prompt_map (prompts s) ! i)) (buffer s1) = Some m \<and>
     (\<exists>rest. buffer s1 = buffer s @ rest) \<and>
     u_app_authenticate E user password False s =
       Some (Inr (), u_dbg 1 ''Shell prompt received.'' s1) \<and>
     buffer (u_dbg 1 ''Shell prompt received.'' s1) = buffer s1 \<and>
     (\<forall>e s2. expect_prompt E (u_dbg 1 ''Shell prompt received.'' s1) = (Inl e, s2) \<longrightarrow>
        u_app_authenticate E user password True s = Some (Inl e, s2)) \<and>
     (\<forall>v s2. expect_prompt E (u_dbg 1 ''Shell prompt received.'' s1) = (Inr v, s2) \<longrightarrow>
        u_app_authenticate E user password True s = Some (Inr (), s2) \<and>
        (\<exists>j m' rest. first_match (get_prompt s) (buffer s1 @ rest) = Some (j, m') \<and>
           buffer s2 = drop (m_end m') (buffer s1 @ rest)))"
proof -
  obtain sec prompt where pm: "prompt_map (prompts s) ! i = (sec, prompt)"
    by (cases "prompt_map (prompts s) ! i")
  with assms(2) have sec: "sec = ''cli''" by simp
  from race_match [OF assms(1)] have rm:
    "prompt_map (prompts s) ! i \<in> set (prompt_map (prompts s))"
    "re_search (snd (prompt_map (prompts s) ! i)) (buffer s1) = Some m"
    "\<exists>rest. buffer s1 = buffer s @ rest" "get_prompt s1 = get_prompt s"
    by simp_all
  from rm(1) pm sec prompt_map_sections [of sec prompt s]
  have a: "snd (prompt_map (prompts s) ! i) \<in> set (get_prompt s)" by simp
  have st: "app_authenticate_step E user password s =
      (Inr Break, u_dbg 1 ''Shell prompt received.'' s1)"
    unfolding step_section [OF assms(1) pm] sec by simp
  let ?s2 = "u_dbg 1 ''Shell prompt received.'' s1"
  have f: "u_app_authenticate E user password False s = Some (Inr (), ?s2)"
    by (simp add: u_app_authenticate.simps [of E user password False s] st)
  have t: "u_app_authenticate E user password True s =
      (case expect_prompt E ?s2 of
         (Inl e, s2) \<Rightarrow> Some (Inl e, s2)
       | (Inr v, s2) \<Rightarrow> Some (Inr (), s2))"
    by (simp add: u_app_authenticate.simps [of E user password True s] st)
  have c: "\<exists>j m' rest. first_match (get_prompt s) (buffer s1 @ rest) = Some (j, m') \<and>
           buffer s2 = drop (m_end m') (buffer s1 @ rest)"
    if "expect_prompt E ?s2 = (Inr v, s2)" for v s2
  proof -
    have q: "get_prompt ?s2 = get_prompt s" "buffer ?s2 = buffer s1"
      using rm(4) by simp_all
    from expect_prompt_consumes [OF that] show ?thesis unfolding q by blast
  qed
  from a rm(2,3) f t c show ?thesis by simp
qed

text \<open>
  The host shows its prompt: without \<open>flush\<close> the prompt stays in the buffer,
  with \<open>flush\<close> the buffer is empty afterwards. After a login with user name
  and password, \<open>app_authenticate(account, flush = False)\<close> has sent both and
  left the prompt in the buffer.
\<close>

theorem cli_prompt_is_left_unless_flush_witness:
  "fst (u_waitfor E0 (prompt_list (prompts S_prompt)) S_prompt) =
     Inr (4, \<lparr>m_start = 6, m_end = 8, m_groups = []\<rparr>) \<and>
   prompt_map (prompts S_prompt) ! 4 = (''cli'', lit ''> '') \<and>
   map_option fst (u_app_authenticate E0 ''alice'' ''secret'' False S_prompt) = Some (Inr ()) \<and>
   map_option (buffer \<circ> snd) (u_app_authenticate E0 ''alice'' ''secret'' False S_prompt) =
     Some ''router> '' \<and>
   map_option (buffer \<circ> snd) (u_app_authenticate E0 ''alice'' ''secret'' True S_prompt) =
     Some [] \<and>
   map_option (\<lambda>r. (sent (snd r), buffer (snd r)))
       (app_authenticate E0 (Some alice) False S_login) =
     Some ([''alice'' @ [CHR 0x0D], ''secret'' @ [CHR 0x0D]], ''router> '')"
proof -
  have c: "prompt_map (prompts S_prompt) ! 4 = (''cli'', lit ''> '')"
    by (simp add: S_prompt_def race_defs run_defs)
  then have "fst (prompt_map (prompts S_prompt) ! 4) = ''cli''" by simp
  from cli_prompt_is_left_unless_flush [OF run_prompt_wait this, of "''alice''" "''secret''"]
  show ?thesis
    by (simp add: c run_prompt_wait run_prompt_flush run_login u_dbg_def)
qed

subsection \<open>A timeout in the race\<close>

text \<open>
  C8. When the wait of the race times out, \<open>_app_authenticate\<close> raises
  TimeoutException with the message \<open>Buffer:\<close> followed by \<open>repr\<close> of
  \<open>self.response\<close>, which the wait has set to the text buffered so far: what
  was in the buffer at the start and what has been received since. No pattern
  of the race matches that text, and the host sends nothing more.
\<close>

theorem race_timeout_carries_buffer:
  assumes "u_waitfor E (prompt_list (prompts s)) s = (Inl (TimeoutException msg), s1)"
  shows "u_app_authenticate E user password flush s =
           Some (Inl (TimeoutException (''Buffer: '' @ repr (buffer s1))), s1) \<and>
         first_match (prompt_list (prompts s)) (buffer s1) = None \<and>
         incoming s1 = [] \<and> (\<exists>rest. buffer s1 = buffer s @ rest)"
proof -
  from u_domatch_timeout [OF u_waitfor_fail [OF assms]] have "incoming s1 = []" by simp
  with step_timeout [OF assms, of user password] show ?thesis
    by (simp add: u_app_authenticate.simps [of E user password flush s])
qed

text \<open>The host sends \<open>Welcome\<close> and nothing else.\<close>

theorem race_timeout_carries_buffer_witness:
  "fst (u_waitfor E0 (prompt_list (prompts S_silent)) S_silent) =
     Inl (TimeoutException ''Error while waiting for response from device'') \<and>
   buffer (snd (u_waitfor E0 (prompt_list (prompts S_silent)) S_silent)) = ''Welcome'' \<and>
   map_option fst (u_app_authenticate E0 ''alice'' ''secret'' True S_silent) =
     Some (Inl (TimeoutException (''Buffer: '' @ [CHR 0x27] @ ''Welcome'' @ [CHR 0x27])))"
  using race_timeout_carries_buffer [OF run_silent_wait, of "''alice''" "''secret''" True]
  by (simp add: run_silent_wait repr_def repr_char_def Let_def)

subsection \<open>Manual prompts and the driver's prompts\<close>

text \<open>
  C9, as the source has it. A getter tests its manual attribute for truth, so a
  manual prompt that is a list with at least one pattern is what the getter
  returns, for each of the five categories; when no manual prompt is set, or
  the manual prompt is the empty list, the getter returns the pattern list of
  the driver in use.
\<close>

theorem getters_prefer_nonempty_manual_prompt:
  "(\<forall>rs. manual_user_re s = Some rs \<and> rs \<noteq> [] \<longrightarrow> get_username_prompt s = rs) \<and>
   (manual_user_re s = None \<or> manual_user_re s = Some [] \<longrightarrow>
      get_username_prompt s = user_re (get_driver s)) \<and>
   (\<forall>rs. manual_password_re s = Some rs \<and> rs \<noteq> [] \<longrightarrow> get_password_prompt s = rs) \<and>
   (manual_password_re s = None \<or> manual_password_re s = Some [] \<longrightarrow>
      get_password_prompt s = password_re (get_driver s)) \<and>
   (\<forall>rs. manual_prompt_re s = Some rs \<and> rs \<noteq> [] \<longrightarrow> get_prompt s = rs) \<and>
   (manual_prompt_re s = None \<or> manual_prompt_re s = Some [] \<longrightarrow>
      get_prompt s = prompt_re (get_driver s)) \<and>
   (\<forall>rs. manual_error_re s = Some rs \<and> rs \<noteq> [] \<longrightarrow> get_error_prompt s = rs) \<and>
   (manual_error_re s = None \<or> manual_error_re s = Some [] \<longrightarrow>
      get_error_prompt s = error_re (get_driver s)) \<and>
   (\<forall>rs. manual_login_error_re s = Some rs \<and> rs \<noteq> [] \<longrightarrow> get_login_error_prompt s = rs) \<and>
   (manual_login_error_re s = None \<or> manual_login_error_re s = Some [] \<longrightarrow>
      get_login_error_prompt s = login_error_re (get_driver s))"
  by (auto simp: get_username_prompt_def get_password_prompt_def get_prompt_def
      get_error_prompt_def get_login_error_prompt_def truthy_def)

theorem getters_prefer_nonempty_manual_prompt_witness:
  "get_username_prompt S_manual = [lit ''user:''] \<and>
   get_password_prompt S_manual = [lit ''pass:''] \<and>
   get_prompt S_manual = [lit ''$ ''] \<and>
   get_error_prompt S_manual = [lit ''error''] \<and>
   get_login_error_prompt S_manual = [lit ''denied''] \<and>
   manual_user_re S0 = None \<and>
   get_username_prompt S0 = user_re (get_driver S0) \<and>
   get_password_prompt S0 = password_re (get_driver S0) \<and>
   get_prompt S0 = prompt_re (get_driver S0) \<and>
   get_error_prompt S0 = error_re (get_driver S0) \<and>
   get_login_error_prompt S0 = login_error_re (get_driver S0)"
proof -
  have m: "manual_user_re S_manual = Some [lit ''user:'']"
    "manual_password_re S_manual = Some [lit ''pass:'']"
    "manual_prompt_re S_manual = Some [lit ''$ '']"
    "manual_error_re S_manual = Some [lit ''error'']"
    "manual_login_error_re S_manual = Some [lit ''denied'']"
    by (simp_all add: S_manual_def set_username_prompt_def set_password_prompt_def
        set_prompt_def set_error_prompt_def set_login_error_prompt_def)
  have n: "manual_user_re S0 = None" "manual_password_re S0 = None"
    "manual_prompt_re S0 = None" "manual_error_re S0 = None"
    "manual_login_error_re S0 = None"
    by (simp_all add: S0_def)
  show ?thesis
    using getters_prefer_nonempty_manual_prompt [of S_manual]
      getters_prefer_nonempty_manual_prompt [of S0] m n
    by simp
qed

text \<open>
  C9 as it is stated does not hold: after \<open>set_username_prompt([])\<close> the manual
  prompt is set (it is not \<open>None\<close>), and the getter returns the driver's
  patterns, not the manual ones.
\<close>

theorem empty_manual_prompt_counterexample:
  "manual_user_re (set_username_prompt (Some []) S0) = Some [] \<and>
   get_username_prompt (set_username_prompt (Some []) S0) = user_re generic_driver \<and>
   user_re generic_driver \<noteq> []"
  by (simp add: set_username_prompt_def get_username_prompt_def truthy_def get_driver_def
      S0_def E0_def driver_map_def generic_driver_def)

end
